theory Spec2Isabelle
  imports Main
begin

section \<open>JavaScript strings\<close>

text \<open>
  A JavaScript string is a sequence of UTF-16 code units. None of the regular expressions
  of \<^verbatim>\<open>translation-assistant.js\<close> carries the \<^verbatim>\<open>u\<close> flag, so every one of them works on
  code units. A code unit is modelled by its number (below 65536 for a real string); the
  functions below never compute with a code unit, they only compare it.
\<close>

type_synonym jschar = nat
type_synonym jsstring = "jschar list"

definition str :: "string \<Rightarrow> jsstring" where
  "str s = map of_char s"

abbreviation TAB :: jschar where "TAB \<equiv> 9"
abbreviation LF :: jschar where "LF \<equiv> 10"
abbreviation SPACE :: jschar where "SPACE \<equiv> 32"
abbreviation BANG :: jschar where "BANG \<equiv> 33"
abbreviation DOLLAR :: jschar where "DOLLAR \<equiv> 36"
abbreviation LPAREN :: jschar where "LPAREN \<equiv> 40"
abbreviation RPAREN :: jschar where "RPAREN \<equiv> 41"
abbreviation STAR :: jschar where "STAR \<equiv> 42"
abbreviation LBRACKET :: jschar where "LBRACKET \<equiv> 91"
abbreviation BACKSLASH :: jschar where "BACKSLASH \<equiv> 92"
abbreviation RBRACKET :: jschar where "RBRACKET \<equiv> 93"
abbreviation UNDERSCORE :: jschar where "UNDERSCORE \<equiv> 95"
abbreviation SNOWMAN :: jschar where "SNOWMAN \<equiv> 9731"

text \<open>\<^verbatim>\<open>const LINE_BREAK = '\n\n'\<close>\<close>

definition LINE_BREAK :: jsstring where
  "LINE_BREAK = [LF, LF]"

text \<open>The three placeholders, and the text an \<^verbatim>\<open>undefined\<close> value turns into.\<close>

definition MATH_PH :: jsstring where
  "MATH_PH = [95, 95, 77, 65, 84, 72, 95, 95]"

definition GRAPHIE_PH :: jsstring where
  "GRAPHIE_PH = [95, 95, 71, 82, 65, 80, 72, 73, 69, 95, 95]"

definition WIDGET_PH :: jsstring where
  "WIDGET_PH = [95, 95, 87, 73, 68, 71, 69, 84, 95, 95]"

definition UNDEFINED_TEXT :: jsstring where
  "UNDEFINED_TEXT = [117, 110, 100, 101, 102, 105, 110, 101, 100]"

section \<open>Regular expressions as backtracking matchers\<close>

text \<open>
  A matcher is given the rest of the subject string from the position where a match is
  attempted and answers with the length of the match the backtracking engine finds
  there, or \<open>None\<close>. No pattern of the program looks behind the position it starts at.
\<close>

type_synonym matcher = "jsstring \<Rightarrow> nat option"

fun orelse :: "'a option \<Rightarrow> 'a option \<Rightarrow> 'a option" where
  "orelse (Some x) y = Some x"
| "orelse None y = y"

text \<open>A literal piece of a pattern.\<close>

definition lit :: "jsstring \<Rightarrow> matcher" where
  "lit p s = (if take (length p) s = p then Some (length p) else None)"

text \<open>A literal followed by the rest of the pattern.\<close>

definition lit_then :: "jsstring \<Rightarrow> matcher \<Rightarrow> matcher" where
  "lit_then p k s =
     (case lit p s of
        None \<Rightarrow> None
      | Some n \<Rightarrow> map_option (\<lambda>j. n + j) (k (drop n s)))"

text \<open>
  A greedy repetition of a character class followed by the rest of the pattern:
  \<^verbatim>\<open>[cls]+ k\<close> when started with \<open>seen = False\<close>, \<^verbatim>\<open>[cls]* k\<close> when started with
  \<open>seen = True\<close>. The engine first tries one more character of the class; only when
  everything after that fails does it leave the repetition and try the rest.
\<close>

fun rep_then :: "(jschar \<Rightarrow> bool) \<Rightarrow> matcher \<Rightarrow> bool \<Rightarrow> matcher" where
  "rep_then cls k seen [] = (if seen then k [] else None)"
| "rep_then cls k seen (c # cs) =
     orelse (if cls c then map_option Suc (rep_then cls k True cs) else None)
            (if seen then k (c # cs) else None)"

text \<open>
  \<^verbatim>\<open>const MATH_REGEX = /\$(\\\$|[^\$])+\$/g\<close>: a dollar, one or more times either an
  escaped dollar or any code unit but a dollar, then a dollar. \<open>math_iter\<close> is the
  repetition with the closing dollar: it tries the first alternative, then the second,
  then leaves the repetition (allowed after one round).
\<close>

fun math_iter :: "bool \<Rightarrow> matcher" where
  "math_iter seen [] = None"
| "math_iter seen [c] = (if seen \<and> c = DOLLAR then Some 1 else None)"
| "math_iter seen (c # d # ds) =
     orelse (if c = BACKSLASH \<and> d = DOLLAR
             then map_option (\<lambda>n. n + 2) (math_iter True ds) else None)
    (orelse (if c \<noteq> DOLLAR
             then map_option Suc (math_iter True (d # ds)) else None)
            (if seen \<and> c = DOLLAR then Some 1 else None))"

definition MATH_REGEX :: matcher where
  "MATH_REGEX = lit_then [DOLLAR] (math_iter False)"

text \<open>\<^verbatim>\<open>const GRAPHIE_REGEX = /\!\[\]\([^)]+\)/g\<close>\<close>

definition GRAPHIE_REGEX :: matcher where
  "GRAPHIE_REGEX =
     lit_then [BANG, LBRACKET, RBRACKET, LPAREN]
       (rep_then (\<lambda>c. c \<noteq> RPAREN) (lit [RPAREN]) False)"

text \<open>\<^verbatim>\<open>const WIDGET_REGEX = /\[\[[\u2603][^\]]+\]\]/g\<close>\<close>

definition WIDGET_REGEX :: matcher where
  "WIDGET_REGEX =
     lit_then [LBRACKET, LBRACKET, SNOWMAN]
       (rep_then (\<lambda>c. c \<noteq> RBRACKET) (lit [RBRACKET, RBRACKET]) False)"

text \<open>\<^verbatim>\<open>/__MATH__[\t ]*__WIDGET__/g\<close>\<close>

definition MATH_WIDGET_REGEX :: matcher where
  "MATH_WIDGET_REGEX =
     lit_then MATH_PH (rep_then (\<lambda>c. c = TAB \<or> c = SPACE) (lit WIDGET_PH) True)"

text \<open>
  \<^verbatim>\<open>const BOLD_REGEX = /\*\*.*\*\*/g\<close>. Without the \<^verbatim>\<open>s\<close> flag the dot matches every
  code unit but the line terminators LF, CR, U+2028 and U+2029.
\<close>

definition is_line_terminator :: "jschar \<Rightarrow> bool" where
  "is_line_terminator c \<longleftrightarrow> c = 10 \<or> c = 13 \<or> c = 8232 \<or> c = 8233"

definition BOLD_REGEX :: matcher where
  "BOLD_REGEX =
     lit_then [STAR, STAR]
       (rep_then (\<lambda>c. \<not> is_line_terminator c) (lit [STAR, STAR]) True)"

text \<open>The literal patterns \<^verbatim>\<open>/__MATH__/g\<close>, \<^verbatim>\<open>/__GRAPHIE__/g\<close>, \<^verbatim>\<open>/__WIDGET__/g\<close>,
  \<^verbatim>\<open>/\\operatorname\{sen\}/g\<close> and \<^verbatim>\<open>/\\sin/g\<close>.\<close>

definition OPERATORNAME_SEN :: jsstring where
  "OPERATORNAME_SEN =
     [92, 111, 112, 101, 114, 97, 116, 111, 114, 110, 97, 109, 101, 123, 115, 101, 110, 125]"

definition SIN :: jsstring where
  "SIN = [92, 115, 105, 110]"

section \<open>String methods\<close>

text \<open>
  \<^verbatim>\<open>String.prototype.match\<close> with a global pattern, followed by \<^verbatim>\<open>|| []\<close>: the matches from
  left to right, each search starting where the last match ended. Every pattern of the
  program needs at least one code unit, so the engine's extra step after an empty match
  never happens; a matcher's \<open>Some 0\<close> is read as a match of the first code unit.
\<close>

fun match_all :: "matcher \<Rightarrow> jsstring \<Rightarrow> jsstring list" where
  "match_all m [] = []"
| "match_all m (c # cs) =
     (case m (c # cs) of
        None \<Rightarrow> match_all m cs
      | Some n \<Rightarrow> (c # take (n - 1) cs) # match_all m (drop (n - 1) cs))"

text \<open>
  \<^verbatim>\<open>String.prototype.replace\<close> with a global pattern; \<open>f\<close> computes the replacement from
  the matched text (a constant function for a replacement string; none of the
  replacement strings of the program contains a dollar).
\<close>

fun replace_all :: "matcher \<Rightarrow> (jsstring \<Rightarrow> jsstring) \<Rightarrow> jsstring \<Rightarrow> jsstring" where
  "replace_all m f [] = []"
| "replace_all m f (c # cs) =
     (case m (c # cs) of
        None \<Rightarrow> c # replace_all m f cs
      | Some n \<Rightarrow> f (c # take (n - 1) cs) @ replace_all m f (drop (n - 1) cs))"

text \<open>
  \<^verbatim>\<open>replace\<close> with a callback that reads and increments a counter of the enclosing
  function: the counter is passed in and returned. \<open>f i\<close> is what the callback returns
  when the counter is \<open>i\<close>.
\<close>

fun replace_counting :: "matcher \<Rightarrow> (nat \<Rightarrow> jsstring) \<Rightarrow> nat \<Rightarrow> jsstring \<Rightarrow> jsstring \<times> nat" where
  "replace_counting m f i [] = ([], i)"
| "replace_counting m f i (c # cs) =
     (case m (c # cs) of
        None \<Rightarrow> (case replace_counting m f i cs of (r, j) \<Rightarrow> (c # r, j))
      | Some n \<Rightarrow>
          (case replace_counting m f (Suc i) (drop (n - 1) cs) of (r, j) \<Rightarrow> (f i @ r, j)))"

text \<open>\<^verbatim>\<open>str.split(LINE_BREAK)\<close>: the separator is searched from left to right.\<close>

fun split_lines :: "jsstring \<Rightarrow> jsstring list" where
  "split_lines [] = [[]]"
| "split_lines [c] = [[c]]"
| "split_lines (c # d # cs) =
     (if c = LF \<and> d = LF then [] # split_lines cs
      else (case split_lines (d # cs) of
              l # ls \<Rightarrow> (c # l) # ls
            | [] \<Rightarrow> [[c]]))"

text \<open>\<^verbatim>\<open>lines.join(LINE_BREAK)\<close>\<close>

fun join_lines :: "jsstring list \<Rightarrow> jsstring" where
  "join_lines [] = []"
| "join_lines [l] = l"
| "join_lines (l # k # ls) = l @ LINE_BREAK @ join_lines (k # ls)"

text \<open>
  \<^verbatim>\<open>String.prototype.trim\<close> removes white space and line terminators from both ends:
  TAB, LF, VT, FF, CR, SPACE, NBSP, U+1680, U+2000 to U+200A, U+2028, U+2029, U+202F,
  U+205F, U+3000 and U+FEFF.
\<close>

definition is_space :: "jschar \<Rightarrow> bool" where
  "is_space c \<longleftrightarrow>
     (9 \<le> c \<and> c \<le> 13) \<or> c = 32 \<or> c = 160 \<or> c = 5760 \<or> (8192 \<le> c \<and> c \<le> 8202) \<or>
     c = 8232 \<or> c = 8233 \<or> c = 8239 \<or> c = 8287 \<or> c = 12288 \<or> c = 65279"

definition trim :: "jsstring \<Rightarrow> jsstring" where
  "trim s = rev (dropWhile is_space (rev (dropWhile is_space s)))"

text \<open>\<^verbatim>\<open>s.indexOf(p) !== -1\<close>\<close>

fun includes_str :: "jsstring \<Rightarrow> jsstring \<Rightarrow> bool" where
  "includes_str p [] = (p = [])"
| "includes_str p (c # cs) = (take (length p) (c # cs) = p \<or> includes_str p cs)"

text \<open>\<^verbatim>\<open>xs.indexOf(x)\<close>, with \<open>None\<close> for -1.\<close>

fun indexOf :: "'a list \<Rightarrow> 'a \<Rightarrow> nat option" where
  "indexOf [] x = None"
| "indexOf (y # ys) x = (if y = x then Some 0 else map_option Suc (indexOf ys x))"

section \<open>The program\<close>

subsection \<open>normalizeString\<close>

text \<open>\<^verbatim>\<open>(match) => match.substring(2, match.length - 2)\<close>; \<^verbatim>\<open>substring\<close> swaps its arguments
  when the first is the larger one.\<close>

definition substring :: "nat \<Rightarrow> nat \<Rightarrow> jsstring \<Rightarrow> jsstring" where
  "substring a b s = take (max a b - min a b) (drop (min a b) s)"

definition strip_bold :: "jsstring \<Rightarrow> jsstring" where
  "strip_bold match = substring 2 (length match - 2) match"

definition mask_specials :: "jsstring \<Rightarrow> jsstring" where
  "mask_specials s =
     replace_all WIDGET_REGEX (\<lambda>_. WIDGET_PH)
       (replace_all GRAPHIE_REGEX (\<lambda>_. GRAPHIE_PH)
         (replace_all MATH_REGEX (\<lambda>_. MATH_PH) s))"

definition normalizeString :: "jsstring \<Rightarrow> jsstring" where
  "normalizeString s =
     join_lines (map trim (split_lines
       (replace_all BOLD_REGEX strip_bold
         (replace_all MATH_WIDGET_REGEX (\<lambda>_. MATH_PH @ [SPACE] @ WIDGET_PH)
           (mask_specials s)))))"

subsection \<open>group\<close>

text \<open>
  Errors. \<open>Error msg\<close> is a JavaScript \<^verbatim>\<open>Error\<close> object with its message: thrown by
  \<^verbatim>\<open>getMapping\<close>, caught and returned as a value by \<^verbatim>\<open>createTemplate\<close>, returned by
  \<^verbatim>\<open>findTranslationPair\<close> and by \<^verbatim>\<open>suggest\<close>. \<open>TypeError\<close> is the exception the engine
  throws when a property of \<^verbatim>\<open>undefined\<close> is read or a value that is not a function is
  called; nothing in the program catches it.
\<close>

datatype error = Error string | TypeError

text \<open>
  \<^verbatim>\<open>var stringMatches = {}\<close> is an ordinary object: besides the keys the loop stores, a
  lookup \<^verbatim>\<open>stringMatches[str]\<close> finds the properties inherited from \<^verbatim>\<open>Object.prototype\<close>.
  All of these are functions, or the prototype object itself for \<^verbatim>\<open>__proto__\<close>: truthy
  values without a \<^verbatim>\<open>push\<close> method. The own keys are kept as an association list in
  the order they were stored; \<^verbatim>\<open>suggest\<close> only counts them.
\<close>

definition object_prototype_keys :: "jsstring list" where
  "object_prototype_keys = map str
     [''constructor'', ''__defineGetter__'', ''__defineSetter__'', ''hasOwnProperty'',
      ''__lookupGetter__'', ''__lookupSetter__'', ''isPrototypeOf'', ''propertyIsEnumerable'',
      ''toString'', ''valueOf'', ''__proto__'', ''toLocaleString'']"

type_synonym 'a groups = "(jsstring \<times> 'a list) list"

fun push_item :: "jsstring \<Rightarrow> 'a \<Rightarrow> 'a groups \<Rightarrow> 'a groups" where
  "push_item k obj [] = []"
| "push_item k obj ((k', xs) # gs) =
     (if k' = k then (k', xs @ [obj]) # gs else (k', xs) # push_item k obj gs)"

fun group_loop :: "('a \<Rightarrow> jsstring) \<Rightarrow> 'a list \<Rightarrow> 'a groups \<Rightarrow> error + 'a groups" where
  "group_loop getEnglishStr [] stringMatches = Inr stringMatches"
| "group_loop getEnglishStr (obj # rest) stringMatches =
     (let str = normalizeString (getEnglishStr obj) in
      if str \<in> fst ` set stringMatches
        then group_loop getEnglishStr rest (push_item str obj stringMatches)
      else if str \<in> set object_prototype_keys
        then Inl TypeError
      else group_loop getEnglishStr rest (stringMatches @ [(str, [obj])]))"

definition group :: "'a list \<Rightarrow> ('a \<Rightarrow> jsstring) \<Rightarrow> error + 'a groups" where
  "group items getEnglishStr = group_loop getEnglishStr items []"

subsection \<open>getMapping and createTemplate\<close>

text \<open>The \<^verbatim>\<open>findRegex\<close> argument of \<^verbatim>\<open>getMapping\<close> is one of the three patterns.\<close>

datatype kind = Math | Graphie | Widget

fun regex_of :: "kind \<Rightarrow> matcher" where
  "regex_of Math = MATH_REGEX"
| "regex_of Graphie = GRAPHIE_REGEX"
| "regex_of Widget = WIDGET_REGEX"

fun mismatch_message :: "kind \<Rightarrow> string" where
  "mismatch_message Math = ''math doesn't match''"
| "mismatch_message Graphie = ''graphies don't match''"
| "mismatch_message Widget = ''widgets don't match''"

definition PT :: jsstring where
  "PT = [112, 116]"

text \<open>\<^verbatim>\<open>if (lang === 'pt') { output = output.replace(/\\operatorname\{sen\}/g, '\\sin'); }\<close>\<close>

definition rewrite_output :: "jsstring \<Rightarrow> jsstring \<Rightarrow> jsstring" where
  "rewrite_output lang output =
     (if lang = PT then replace_all (lit OPERATORNAME_SEN) (\<lambda>_. SIN) output else output)"

fun getMapping_loop :: "jsstring list \<Rightarrow> jsstring \<Rightarrow> kind \<Rightarrow> jsstring list \<Rightarrow> error + nat list" where
  "getMapping_loop inputs lang findRegex [] = Inr []"
| "getMapping_loop inputs lang findRegex (output # rest) =
     (case indexOf inputs (rewrite_output lang output) of
        None \<Rightarrow> Inl (Error (mismatch_message findRegex))
      | Some inputIndex \<Rightarrow>
          (case getMapping_loop inputs lang findRegex rest of
             Inl e \<Rightarrow> Inl e
           | Inr mapping \<Rightarrow> Inr (inputIndex # mapping)))"

definition getMapping :: "jsstring \<Rightarrow> jsstring \<Rightarrow> jsstring \<Rightarrow> kind \<Rightarrow> error + nat list" where
  "getMapping englishStr translatedStr lang findRegex =
     getMapping_loop (match_all (regex_of findRegex) englishStr) lang findRegex
       (match_all (regex_of findRegex) translatedStr)"

record template =
  lines :: "jsstring list"
  mathMapping :: "nat list"
  graphieMapping :: "nat list"
  widgetMapping :: "nat list"

definition createTemplate :: "jsstring \<Rightarrow> jsstring \<Rightarrow> jsstring \<Rightarrow> error + template" where
  "createTemplate englishStr translatedStr lang =
     (let translatedLines = split_lines translatedStr in
      case getMapping englishStr translatedStr lang Math of
        Inl e \<Rightarrow> Inl e
      | Inr mm \<Rightarrow>
      (case getMapping englishStr translatedStr lang Graphie of
        Inl e \<Rightarrow> Inl e
      | Inr gm \<Rightarrow>
      (case getMapping englishStr translatedStr lang Widget of
        Inl e \<Rightarrow> Inl e
      | Inr wm \<Rightarrow>
          Inr \<lparr>lines = map mask_specials translatedLines,
               mathMapping = mm, graphieMapping = gm, widgetMapping = wm\<rparr>)))"

subsection \<open>translateMath and populateTemplate\<close>

text \<open>
  The second argument of \<^verbatim>\<open>translateMath\<close> is whatever the caller passes:
  \<^verbatim>\<open>autoTranslatePlaceholders\<close> passes the language string, \<^verbatim>\<open>maths.map(translateMath)\<close>
  in \<^verbatim>\<open>populateTemplate\<close> passes what \<^verbatim>\<open>Array.prototype.map\<close> gives a callback as its second
  argument, the index of the element.
\<close>

datatype jsvalue = JString jsstring | JNumber nat

definition translateMath :: "jsstring \<Rightarrow> jsvalue \<Rightarrow> jsstring" where
  "translateMath math lang =
     (if lang = JString PT then replace_all (lit SIN) (\<lambda>_. OPERATORNAME_SEN) math
      else math)"

text \<open>
  \<^verbatim>\<open>maths[template.mathMapping[mathIndex++]]\<close> as the result of a replacement callback:
  reading past the end of either array gives \<^verbatim>\<open>undefined\<close>, which \<^verbatim>\<open>replace\<close> turns into
  the text \<^verbatim>\<open>undefined\<close>.
\<close>

definition pick :: "jsstring list \<Rightarrow> nat list \<Rightarrow> nat \<Rightarrow> jsstring" where
  "pick xs mapping i =
     (if i < length mapping \<and> mapping ! i < length xs then xs ! (mapping ! i)
      else UNDEFINED_TEXT)"

record counters =
  mathIndex :: nat
  graphieIndex :: nat
  widgetIndex :: nat

definition populate_line ::
  "template \<Rightarrow> jsstring list \<Rightarrow> jsstring list \<Rightarrow> jsstring list \<Rightarrow> counters \<Rightarrow> jsstring
     \<Rightarrow> jsstring \<times> counters" where
  "populate_line t maths graphies widgets cnt templateLine =
     (case replace_counting (lit MATH_PH) (pick maths (mathMapping t))
             (mathIndex cnt) templateLine of
        (l1, mi) \<Rightarrow>
     (case replace_counting (lit GRAPHIE_PH) (pick graphies (graphieMapping t))
             (graphieIndex cnt) l1 of
        (l2, gi) \<Rightarrow>
     (case replace_counting (lit WIDGET_PH) (pick widgets (widgetMapping t))
             (widgetIndex cnt) l2 of
        (l3, wi) \<Rightarrow> (l3, \<lparr>mathIndex = mi, graphieIndex = gi, widgetIndex = wi\<rparr>))))"

text \<open>The \<^verbatim>\<open>englishLines.map((englishLine, index) => ...)\<close> loop; \<^verbatim>\<open>template.lines[index]\<close>
  is \<^verbatim>\<open>undefined\<close> past the end of the template, and \<^verbatim>\<open>undefined.replace\<close> throws.\<close>

fun populate_lines ::
  "template \<Rightarrow> jsstring list \<Rightarrow> jsstring list \<Rightarrow> jsstring list \<Rightarrow> nat \<Rightarrow> counters
     \<Rightarrow> jsstring list \<Rightarrow> error + jsstring list" where
  "populate_lines t maths graphies widgets index cnt [] = Inr []"
| "populate_lines t maths graphies widgets index cnt (englishLine # rest) =
     (if index < length (lines t) then
        (case populate_line t maths graphies widgets cnt (lines t ! index) of
           (l, cnt') \<Rightarrow>
             (case populate_lines t maths graphies widgets (Suc index) cnt' rest of
                Inl e \<Rightarrow> Inl e
              | Inr ls \<Rightarrow> Inr (l # ls)))
      else Inl TypeError)"

definition populateTemplate :: "template \<Rightarrow> jsstring \<Rightarrow> jsstring \<Rightarrow> error + jsstring" where
  "populateTemplate t englishStr lang =
     (let englishLines = split_lines englishStr;
          maths = match_all MATH_REGEX englishStr;
          graphies = match_all GRAPHIE_REGEX englishStr;
          widgets = match_all WIDGET_REGEX englishStr;
          maths' = map2 (\<lambda>math index. translateMath math (JNumber index))
                     maths [0 ..< length maths]
      in case populate_lines t maths' graphies widgets 0
                \<lparr>mathIndex = 0, graphieIndex = 0, widgetIndex = 0\<rparr> englishLines of
           Inl e \<Rightarrow> Inl e
         | Inr ls \<Rightarrow> Inr (join_lines ls))"

subsection \<open>autoTranslatePlaceholders, findTranslationPair and suggest\<close>

text \<open>
  The first component of a result pair is either the item or, in one branch of
  \<^verbatim>\<open>autoTranslatePlaceholders\<close>, the English string the accessor returned for it. The two
  are the same JavaScript value exactly when the accessor returns the item itself.
\<close>

datatype 'a slot = Item 'a | EnglishStr jsstring

definition TEXT_COMMAND :: jsstring where
  "TEXT_COMMAND = [92, 116, 101, 120, 116]"

definition autoTranslate_item ::
  "jsstring \<Rightarrow> ('a \<Rightarrow> jsstring) \<Rightarrow> 'a \<Rightarrow> 'a slot \<times> jsstring option" where
  "autoTranslate_item lang getEnglishStr item =
     (let englishStr = getEnglishStr item;
          normalStr = normalizeString englishStr
      in if normalStr = MATH_PH \<or> normalStr = GRAPHIE_PH \<or> normalStr = WIDGET_PH then
           (if normalStr = MATH_PH then
              (if includes_str TEXT_COMMAND englishStr then (EnglishStr englishStr, None)
               else (Item item, Some (translateMath englishStr (JString lang))))
            else (Item item, Some englishStr))
         else (Item item, None))"

definition autoTranslatePlaceholders ::
  "'a list \<Rightarrow> jsstring \<Rightarrow> ('a \<Rightarrow> jsstring) \<Rightarrow> ('a slot \<times> jsstring option) list" where
  "autoTranslatePlaceholders items lang getEnglishStr =
     map (autoTranslate_item lang getEnglishStr) items"

text \<open>An element of a reference pair is a string, or \<^verbatim>\<open>null\<close> or \<^verbatim>\<open>undefined\<close> (\<open>None\<close>);
  it is truthy when it is a string that is not empty.\<close>

definition truthy :: "jsstring option \<Rightarrow> bool" where
  "truthy v = (case v of None \<Rightarrow> False | Some s \<Rightarrow> s \<noteq> [])"

fun findTranslationPair ::
  "(jsstring option \<times> jsstring option) list \<Rightarrow> error + (jsstring \<times> jsstring)" where
  "findTranslationPair [] = Inl (Error ''couldn't find translation pair'')"
| "findTranslationPair (pair # rest) =
     (if truthy (fst pair) \<and> truthy (snd pair) then Inr (the (fst pair), the (snd pair))
      else findTranslationPair rest)"

fun populate_items ::
  "template \<Rightarrow> jsstring \<Rightarrow> ('a \<Rightarrow> jsstring) \<Rightarrow> 'a list
     \<Rightarrow> error + ('a slot \<times> jsstring option) list" where
  "populate_items t lang getEnglishStr [] = Inr []"
| "populate_items t lang getEnglishStr (item # rest) =
     (case populateTemplate t (getEnglishStr item) lang of
        Inl e \<Rightarrow> Inl e
      | Inr s \<Rightarrow>
          (case populate_items t lang getEnglishStr rest of
             Inl e \<Rightarrow> Inl e
           | Inr ps \<Rightarrow> Inr ((Item item, Some s) # ps)))"

definition suggest ::
  "(jsstring option \<times> jsstring option) list \<Rightarrow> 'a list \<Rightarrow> jsstring \<Rightarrow> ('a \<Rightarrow> jsstring)
     \<Rightarrow> error + ('a slot \<times> jsstring option) list" where
  "suggest translationPairs items lang getEnglishStr =
     (let pair = findTranslationPair translationPairs in
      case group items getEnglishStr of
        Inl e \<Rightarrow> Inl e
      | Inr groups \<Rightarrow>
          (case pair of
             Inl _ \<Rightarrow> Inr (autoTranslatePlaceholders items lang getEnglishStr)
           | Inr (englishStr, translatedStr) \<Rightarrow>
               if length groups > 1
                 then Inr (autoTranslatePlaceholders items lang getEnglishStr)
               else
                 (case createTemplate englishStr translatedStr lang of
                    Inl e \<Rightarrow> Inl e
                  | Inr t \<Rightarrow> populate_items t lang getEnglishStr items)))"

section \<open>Auxiliary notions and example data\<close>

text \<open>The array stored under the own key \<open>k\<close> of the object \<^verbatim>\<open>group\<close> returns (empty when
  there is no such key), and the items of the input whose normalized English string is
  \<open>k\<close>, in input order.\<close>

fun items_of :: "'a groups \<Rightarrow> jsstring \<Rightarrow> 'a list" where
  "items_of [] k = []"
| "items_of ((k', xs) # gs) k = (if k' = k then xs else items_of gs k)"

definition bucket :: "('a \<Rightarrow> jsstring) \<Rightarrow> 'a list \<Rightarrow> jsstring \<Rightarrow> 'a list" where
  "bucket getEnglishStr items k =
     filter (\<lambda>obj. normalizeString (getEnglishStr obj) = k) items"

text \<open>Items as objects with an \<^verbatim>\<open>englishStr\<close> property, read by the accessor
  \<^verbatim>\<open>item => item.englishStr\<close>.\<close>

record item =
  englishStr :: jsstring

definition ref_english :: jsstring where
  "ref_english = str ''simplify $2/4$'' @ LINE_BREAK @ str ''hint: the denominator is $2$''"

definition ref_translated :: jsstring where
  "ref_translated =
     str ''simplifique $2/4$'' @ LINE_BREAK @
     str ''pista: o denominador '' @ [233] @ str '' $2$''"

definition new_english :: jsstring where
  "new_english = str ''simplify $3/12$'' @ LINE_BREAK @ str ''hint: the denominator is $4$''"

definition example_template :: template where
  "example_template =
     \<lparr>lines = [str ''simplifique __MATH__'',
               str ''pista: o denominador '' @ [233] @ str '' __MATH__''],
      mathMapping = [0, 1], graphieMapping = [], widgetMapping = []\<rparr>"

text \<open>The strings \<^verbatim>\<open>$\sin x$\<close> and \<^verbatim>\<open>$\text{cost}$\<close>.\<close>

definition sin_math :: jsstring where
  "sin_math = [DOLLAR] @ SIN @ str '' x$''"

definition text_math :: jsstring where
  "text_math = [DOLLAR] @ TEXT_COMMAND @ str ''{cost}$''"

text \<open>Some occurrence of kind \<open>k\<close> in the translated string, after the rewrite for
  Portuguese, is not among the occurrences of that kind in the English string.\<close>

definition unmatched :: "jsstring \<Rightarrow> jsstring \<Rightarrow> jsstring \<Rightarrow> kind \<Rightarrow> bool" where
  "unmatched e t lang k \<longleftrightarrow>
     (\<exists>output \<in> set (match_all (regex_of k) t).
        rewrite_output lang output \<notin> set (match_all (regex_of k) e))"

text \<open>The lines \<^verbatim>\<open>populateTemplate\<close> joins, and what it means for a line to be one paragraph
  that can be joined to the next: it does not contain \<^verbatim>\<open>LINE_BREAK\<close> and does not end in a
  line feed.\<close>

definition populated_lines :: "template \<Rightarrow> jsstring \<Rightarrow> error + jsstring list" where
  "populated_lines t e =
     populate_lines t
       (map2 (\<lambda>math index. translateMath math (JNumber index))
          (match_all MATH_REGEX e) [0 ..< length (match_all MATH_REGEX e)])
       (match_all GRAPHIE_REGEX e) (match_all WIDGET_REGEX e) 0
       \<lparr>mathIndex = 0, graphieIndex = 0, widgetIndex = 0\<rparr> (split_lines e)"

definition single_paragraph :: "jsstring \<Rightarrow> bool" where
  "single_paragraph l \<longleftrightarrow> split_lines l = [l] \<and> (l = [] \<or> last l \<noteq> LF)"

text \<open>The math \<^verbatim>\<open>$a\n\nb$\<close>, the template of the pair (\<^verbatim>\<open>$x$\<close>, \<^verbatim>\<open>$x$\n\ny\<close>), and a string
  with two bold spans.\<close>

definition split_math :: jsstring where
  "split_math = [DOLLAR, 97, LF, LF, 98, DOLLAR]"

definition two_line_template :: template where
  "two_line_template =
     \<lparr>lines = [MATH_PH, str ''y''], mathMapping = [0], graphieMapping = [],
      widgetMapping = []\<rparr>"

definition two_bold_spans :: jsstring where
  "two_bold_spans = str ''**a** **b**''"

text \<open>
  Translated strings of a simple shape, for the round trip. A paragraph is a leading text
  and a list of pieces, each a special substring (its kind and the text between its
  delimiters) and the text that follows it. \<open>view shown\<close> writes the pieces with the
  kinds in \<open>shown\<close> as they occur in the string and the others as placeholders.
\<close>

datatype piece = Piece kind jsstring jsstring

type_synonym para = "jsstring \<times> piece list"

fun opener :: "kind \<Rightarrow> jsstring" where
  "opener Math = [DOLLAR]"
| "opener Graphie = [BANG, LBRACKET, RBRACKET, LPAREN]"
| "opener Widget = [LBRACKET, LBRACKET, SNOWMAN]"

fun closer :: "kind \<Rightarrow> jsstring" where
  "closer Math = [DOLLAR]"
| "closer Graphie = [RPAREN]"
| "closer Widget = [RBRACKET, RBRACKET]"

definition occurrence :: "kind \<Rightarrow> jsstring \<Rightarrow> jsstring" where
  "occurrence k body = opener k @ body @ closer k"

fun placeholder :: "kind \<Rightarrow> jsstring" where
  "placeholder Math = MATH_PH"
| "placeholder Graphie = GRAPHIE_PH"
| "placeholder Widget = WIDGET_PH"

fun view :: "(kind \<Rightarrow> bool) \<Rightarrow> piece list \<Rightarrow> jsstring" where
  "view shown [] = []"
| "view shown (Piece k body tx # ps) =
     (if shown k then occurrence k body else placeholder k) @ tx @ view shown ps"

fun occurrences :: "kind \<Rightarrow> piece list \<Rightarrow> jsstring list" where
  "occurrences k [] = []"
| "occurrences k (Piece k' body tx # ps) =
     (if k' = k then [occurrence k body] else []) @ occurrences k ps"

definition render_paragraph :: "para \<Rightarrow> jsstring" where
  "render_paragraph p = fst p @ view (\<lambda>_. True) (snd p)"

definition skeleton :: "para \<Rightarrow> jsstring" where
  "skeleton p = fst p @ view (\<lambda>_. False) (snd p)"

text \<open>
  A plain code unit starts neither a special substring nor a placeholder. A body is not
  empty, is plain, and does not contain what would end the occurrence early (or, for math,
  escape the closing dollar). The text after a special substring must not begin with M, G
  or W: after a placeholder it would otherwise spell the beginning of another one.
\<close>

definition plain :: "jschar \<Rightarrow> bool" where
  "plain c \<longleftrightarrow> c \<noteq> DOLLAR \<and> c \<noteq> BANG \<and> c \<noteq> LBRACKET \<and> c \<noteq> UNDERSCORE"

fun wf_body :: "kind \<Rightarrow> jsstring \<Rightarrow> bool" where
  "wf_body Math body \<longleftrightarrow> body \<noteq> [] \<and> list_all plain body \<and> last body \<noteq> BACKSLASH"
| "wf_body Graphie body \<longleftrightarrow> body \<noteq> [] \<and> list_all plain body \<and> RPAREN \<notin> set body"
| "wf_body Widget body \<longleftrightarrow> body \<noteq> [] \<and> list_all plain body \<and> RBRACKET \<notin> set body"

definition no_initial :: "jsstring \<Rightarrow> bool" where
  "no_initial s \<longleftrightarrow> (case s of [] \<Rightarrow> True | c # _ \<Rightarrow> c \<noteq> 77 \<and> c \<noteq> 71 \<and> c \<noteq> 87)"

definition next_ok :: "jsstring \<Rightarrow> bool" where
  "next_ok s \<longleftrightarrow>
     (case s of [] \<Rightarrow> True | c # r \<Rightarrow> if c = UNDERSCORE then no_initial r else no_initial s)"

fun wf_piece :: "piece \<Rightarrow> bool" where
  "wf_piece (Piece k body tx) \<longleftrightarrow> wf_body k body \<and> list_all plain tx \<and> no_initial tx"

definition wf_paragraph :: "para \<Rightarrow> bool" where
  "wf_paragraph p \<longleftrightarrow> list_all plain (fst p) \<and> list_all wf_piece (snd p)"

text \<open>No match of \<open>m\<close> starts inside \<open>pre\<close> when \<open>rest\<close> follows it.\<close>

definition inert :: "matcher \<Rightarrow> jsstring \<Rightarrow> jsstring \<Rightarrow> bool" where
  "inert m pre rest \<longleftrightarrow> (\<forall>i < length pre. m (drop i pre @ rest) = None)"

definition all_occurrences :: "kind \<Rightarrow> para list \<Rightarrow> jsstring list" where
  "all_occurrences k paras = concat (map (\<lambda>p. occurrences k (snd p)) paras)"

text \<open>The language \<^verbatim>\<open>es\<close>, the template of the pair (\<^verbatim>\<open>$x$\<close>, \<^verbatim>\<open>$x$\n\n$x$\<close>), and a pair with
  all three kinds of special substrings, reordered by the translation.\<close>

definition ES :: jsstring where
  "ES = [101, 115]"


definition mixed_english :: jsstring where
  "mixed_english =
     str ''Drag [['' @ [SNOWMAN] @ str '' w 1]] on ![](u)'' @ LINE_BREAK @ str ''to $y$ and $x$''"

definition mixed_translated :: jsstring where
  "mixed_translated =
     str ''Sobre ![](u) arrastra [['' @ [SNOWMAN] @ str '' w 1]]'' @ LINE_BREAK @
     str ''hasta $x$ y $y$''"

definition mixed_paragraphs :: "para list" where
  "mixed_paragraphs =
     [(str ''Sobre '',
       [Piece Graphie (str ''u'') (str '' arrastra ''), Piece Widget (str '' w 1'') []]),
      (str ''hasta '', [Piece Math (str ''x'') (str '' y ''), Piece Math (str ''y'') []])]"

definition mixed_template :: template where
  "mixed_template =
     \<lparr>lines = [str ''Sobre __GRAPHIE__ arrastra __WIDGET__'', str ''hasta __MATH__ y __MATH__''],
      mathMapping = [1, 0], graphieMapping = [0], widgetMapping = [0]\<rparr>"

text \<open>
  The language leaves the special substrings of the translated string as they are: the
  rewrite of \<^verbatim>\<open>getMapping\<close> changes none of them and \<^verbatim>\<open>translateMath\<close> changes none of its
  math. Two more translated strings, \<^verbatim>\<open>Hola! $x_1$\<close> and \<^verbatim>\<open>![](u)MATH$x$\<close>.
\<close>

definition transform_neutral :: "jsstring \<Rightarrow> jsstring \<Rightarrow> bool" where
  "transform_neutral lang tr \<longleftrightarrow>
     list_all (\<lambda>occ. rewrite_output lang occ = occ)
       (match_all MATH_REGEX tr @ match_all GRAPHIE_REGEX tr @ match_all WIDGET_REGEX tr) \<and>
     list_all (\<lambda>occ. translateMath occ (JString lang) = occ) (match_all MATH_REGEX tr)"

definition hola :: jsstring where
  "hola = str ''Hola! $x_1$''"

definition spelled_placeholder :: jsstring where
  "spelled_placeholder = str ''![](u)MATH$x$''"

section \<open>Evaluation\<close>

lemmas eval_defs = str_def MATH_REGEX_def GRAPHIE_REGEX_def WIDGET_REGEX_def
  MATH_WIDGET_REGEX_def BOLD_REGEX_def lit_then_def lit_def MATH_PH_def GRAPHIE_PH_def
  WIDGET_PH_def UNDEFINED_TEXT_def LINE_BREAK_def is_line_terminator_def
  OPERATORNAME_SEN_def SIN_def is_space_def trim_def substring_def strip_bold_def
  mask_specials_def normalizeString_def object_prototype_keys_def group_def PT_def
  rewrite_output_def getMapping_def createTemplate_def translateMath_def pick_def
  populate_line_def populateTemplate_def TEXT_COMMAND_def autoTranslate_item_def
  autoTranslatePlaceholders_def truthy_def suggest_def

text \<open>Every pattern of the program needs at least one code unit.\<close>

lemma lit_then_positive: "p \<noteq> [] \<Longrightarrow> lit_then p k s = Some n \<Longrightarrow> 0 < n"
  by (auto simp: lit_then_def lit_def split: if_splits)

lemma regex_positive: "regex_of k s = Some n \<Longrightarrow> 0 < n"
  by (cases k) (auto simp: MATH_REGEX_def GRAPHIE_REGEX_def WIDGET_REGEX_def
      dest: lit_then_positive[rotated])

lemma other_patterns_positive:
  "MATH_WIDGET_REGEX s = Some n \<Longrightarrow> 0 < n" "BOLD_REGEX s = Some n \<Longrightarrow> 0 < n"
  "lit MATH_PH s = Some n \<Longrightarrow> 0 < n" "lit GRAPHIE_PH s = Some n \<Longrightarrow> 0 < n"
  "lit WIDGET_PH s = Some n \<Longrightarrow> 0 < n" "lit OPERATORNAME_SEN s = Some n \<Longrightarrow> 0 < n"
  "lit SIN s = Some n \<Longrightarrow> 0 < n"
  by (auto simp: MATH_WIDGET_REGEX_def BOLD_REGEX_def MATH_PH_def GRAPHIE_PH_def WIDGET_PH_def
      OPERATORNAME_SEN_def SIN_def lit_def dest: lit_then_positive[rotated] split: if_splits)

lemma placeholders_spelled:
  "MATH_PH = str ''__MATH__''" "GRAPHIE_PH = str ''__GRAPHIE__''"
  "WIDGET_PH = str ''__WIDGET__''" "UNDEFINED_TEXT = str ''undefined''"
  "OPERATORNAME_SEN = BACKSLASH # str ''operatorname{sen}''" "SIN = BACKSLASH # str ''sin''"
  "PT = str ''pt''" "TEXT_COMMAND = BACKSLASH # str ''text''"
  by (simp_all add: eval_defs)

section \<open>Grouping\<close>

lemma push_item_keys: "map fst (push_item k obj gs) = map fst gs"
  by (induction gs) auto

lemma items_of_absent: "k \<notin> fst ` set gs \<Longrightarrow> items_of gs k = []"
  by (induction gs) auto

lemma items_of_push_item:
  "k \<in> fst ` set gs \<Longrightarrow>
   items_of (push_item k obj gs) k' = (if k' = k then items_of gs k @ [obj] else items_of gs k')"
  by (induction gs) force+

lemma items_of_append_new:
  "k \<notin> fst ` set gs \<Longrightarrow>
   items_of (gs @ [(k, [obj])]) k' = (if k' = k then [obj] else items_of gs k')"
  by (induction gs) auto

lemma group_loop_keys:
  "group_loop g items gs = Inr gs' \<Longrightarrow>
   fst ` set gs' = fst ` set gs \<union> (\<lambda>obj. normalizeString (g obj)) ` set items"
proof (induction items arbitrary: gs)
  case Nil
  then show ?case by simp
next
  case (Cons obj rest)
  have keys: "fst ` set (push_item k obj gs) = fst ` set gs" for k
    using push_item_keys[of k obj gs] by (metis list.set_map)
  show ?case
  proof (cases "normalizeString (g obj) \<in> fst ` set gs")
    case True
    with Cons.prems have "group_loop g rest (push_item (normalizeString (g obj)) obj gs) = Inr gs'"
      by (simp add: Let_def)
    from Cons.IH[OF this] True show ?thesis by (auto simp: keys)
  next
    case False
    with Cons.prems
    have "group_loop g rest (gs @ [(normalizeString (g obj), [obj])]) = Inr gs'"
      by (simp add: Let_def split: if_splits)
    from Cons.IH[OF this] show ?thesis by auto
  qed
qed

lemma group_loop_distinct:
  "group_loop g items gs = Inr gs' \<Longrightarrow> distinct (map fst gs) \<Longrightarrow> distinct (map fst gs')"
proof (induction items arbitrary: gs)
  case Nil
  then show ?case by simp
next
  case (Cons obj rest)
  show ?case
  proof (cases "normalizeString (g obj) \<in> fst ` set gs")
    case True
    with Cons.prems have "group_loop g rest (push_item (normalizeString (g obj)) obj gs) = Inr gs'"
      by (simp add: Let_def)
    from Cons.IH[OF this] Cons.prems(2) show ?thesis by (simp add: push_item_keys)
  next
    case False
    with Cons.prems
    have "group_loop g rest (gs @ [(normalizeString (g obj), [obj])]) = Inr gs'"
      by (simp add: Let_def split: if_splits)
    from Cons.IH[OF this] Cons.prems(2) False show ?thesis by auto
  qed
qed

lemma group_loop_items:
  "group_loop g items gs = Inr gs' \<Longrightarrow> items_of gs' k = items_of gs k @ bucket g items k"
proof (induction items arbitrary: gs)
  case Nil
  then show ?case by (simp add: bucket_def)
next
  case (Cons obj rest)
  show ?case
  proof (cases "normalizeString (g obj) \<in> fst ` set gs")
    case True
    with Cons.prems have "group_loop g rest (push_item (normalizeString (g obj)) obj gs) = Inr gs'"
      by (simp add: Let_def)
    from Cons.IH[OF this] True show ?thesis
      by (simp add: items_of_push_item bucket_def)
  next
    case False
    with Cons.prems
    have "group_loop g rest (gs @ [(normalizeString (g obj), [obj])]) = Inr gs'"
      by (simp add: Let_def split: if_splits)
    from Cons.IH[OF this] False show ?thesis
      by (auto simp: items_of_append_new bucket_def items_of_absent)
  qed
qed

lemma group_loop_returns:
  "(\<forall>obj \<in> set items. normalizeString (g obj) \<notin> set object_prototype_keys) \<Longrightarrow>
   \<exists>gs'. group_loop g items gs = Inr gs'"
  by (induction items arbitrary: gs) (auto simp: Let_def)

lemma group_loop_throws:
  "group_loop g items gs = Inl e \<Longrightarrow>
   e = TypeError \<and> (\<exists>obj \<in> set items. normalizeString (g obj) \<in> set object_prototype_keys)"
  by (induction items arbitrary: gs) (auto simp: Let_def split: if_splits)

lemma group_returns:
  "\<forall>obj \<in> set items. normalizeString (g obj) \<notin> set object_prototype_keys \<Longrightarrow>
   \<exists>gs. group items g = Inr gs"
  unfolding group_def by (rule group_loop_returns)

lemma group_throws:
  "group items g = Inl e \<Longrightarrow>
   e = TypeError \<and> (\<exists>obj \<in> set items. normalizeString (g obj) \<in> set object_prototype_keys)"
  unfolding group_def by (rule group_loop_throws)

lemma group_partition:
  assumes "group items g = Inr gs"
  shows "distinct (map fst gs)"
    and "fst ` set gs = (\<lambda>obj. normalizeString (g obj)) ` set items"
    and "items_of gs k = bucket g items k"
  using assms group_loop_distinct[of g items "[]" gs] group_loop_keys[of g items "[]" gs]
    group_loop_items[of g items "[]" gs k]
  by (simp_all add: group_def)

section \<open>The worked example of suggest\<close>

lemma example_normalized:
  "normalizeString new_english =
     str ''simplify __MATH__'' @ LINE_BREAK @ str ''hint: the denominator is __MATH__''"
  by (simp add: eval_defs new_english_def)

lemma example_group:
  "group [\<lparr>englishStr = new_english\<rparr>] englishStr =
   Inr [(str ''simplify __MATH__'' @ LINE_BREAK @ str ''hint: the denominator is __MATH__'',
         [\<lparr>englishStr = new_english\<rparr>])]"
  by (simp add: group_def example_normalized)
     (simp add: str_def object_prototype_keys_def LINE_BREAK_def)

lemma example_createTemplate:
  "createTemplate ref_english ref_translated PT = Inr example_template"
  by (simp add: eval_defs ref_english_def ref_translated_def example_template_def)

lemma example_populateTemplate:
  "populateTemplate example_template new_english PT =
   Inr (str ''simplifique $3/12$'' @ LINE_BREAK @
        str ''pista: o denominador '' @ [233] @ str '' $4$'')"
  by (simp add: eval_defs new_english_def example_template_def)

text \<open>
  Claim C9. With the reference pairs \<^verbatim>\<open>[[null, null], [ref_english, ref_translated]]\<close>, the
  single item whose English string is \<^verbatim>\<open>simplify $3/12$\n\nhint: the denominator is $4$\<close>
  and the language \<^verbatim>\<open>pt\<close>, \<^verbatim>\<open>suggest\<close> returns exactly one pair: the item, with the text
  \<^verbatim>\<open>simplifique $3/12$\n\npista: o denominador \<close>\<open>\<acute>e\<close>\<^verbatim>\<open> $4$\<close> (code unit 233 is the
  letter e with an acute accent).
\<close>

theorem suggest_example:
  "suggest [(None, None), (Some ref_english, Some ref_translated)]
     [\<lparr>englishStr = new_english\<rparr>] PT englishStr =
   Inr [(Item \<lparr>englishStr = new_english\<rparr>,
         Some (str ''simplifique $3/12$'' @ LINE_BREAK @
               str ''pista: o denominador '' @ [233] @ str '' $4$''))]"
proof -
  have pair: "findTranslationPair [(None, None), (Some ref_english, Some ref_translated)] =
      Inr (ref_english, ref_translated)"
    by (simp add: truthy_def ref_english_def ref_translated_def str_def)
  show ?thesis
    unfolding suggest_def pair Let_def example_group
    by (simp add: example_createTemplate example_populateTemplate)
qed

section \<open>The language argument of populateTemplate\<close>

text \<open>Called through \<^verbatim>\<open>maths.map(translateMath)\<close>, \<^verbatim>\<open>translateMath\<close> compares an array index
  with \<^verbatim>\<open>'pt'\<close> and returns the math unchanged; \<^verbatim>\<open>populateTemplate\<close> does not depend on its
  language argument at all.\<close>

lemma translateMath_index: "translateMath math (JNumber i) = math"
  by (simp add: translateMath_def)

lemma populateTemplate_lang: "populateTemplate t e lang = populateTemplate t e lang'"
  by (simp add: populateTemplate_def)

text \<open>
  Claim C5 says that \<^verbatim>\<open>populateTemplate\<close> applies the per-language math transform to every
  Math occurrence of the English string before it replaces a \<^verbatim>\<open>__MATH__\<close> placeholder.
  The code does not: for the template of the pair (\<^verbatim>\<open>$\sin x$\<close>, \<^verbatim>\<open>$\sin x$\<close>) and the
  language \<^verbatim>\<open>pt\<close>, populating with \<^verbatim>\<open>$\sin x$\<close> returns \<^verbatim>\<open>$\sin x$\<close>, while the
  transform of that math is \<^verbatim>\<open>$\operatorname{sen} x$\<close>.
\<close>

theorem populateTemplate_leaves_sin:
  "createTemplate sin_math sin_math PT =
     Inr \<lparr>lines = [MATH_PH], mathMapping = [0], graphieMapping = [], widgetMapping = []\<rparr> \<and>
   populateTemplate
     \<lparr>lines = [MATH_PH], mathMapping = [0], graphieMapping = [], widgetMapping = []\<rparr>
     sin_math PT = Inr sin_math \<and>
   translateMath sin_math (JString PT) = [DOLLAR] @ OPERATORNAME_SEN @ str '' x$'' \<and>
   [DOLLAR] @ OPERATORNAME_SEN @ str '' x$'' \<noteq> sin_math"
  by (simp add: eval_defs sin_math_def)

section \<open>The placeholder auto-translator\<close>

lemma autoTranslate_item_cases:
  "autoTranslate_item lang g x =
     (let s = g x; n = normalizeString s in
      if n = MATH_PH \<and> includes_str TEXT_COMMAND s then (EnglishStr s, None)
      else if n = MATH_PH then (Item x, Some (translateMath s (JString lang)))
      else if n = GRAPHIE_PH \<or> n = WIDGET_PH then (Item x, Some s)
      else (Item x, None))"
  by (simp add: autoTranslate_item_def Let_def)

lemma autoTranslatePlaceholders_length:
  "length (autoTranslatePlaceholders items lang g) = length items"
  by (simp add: autoTranslatePlaceholders_def)

text \<open>
  Claim C8 says that every pair \<^verbatim>\<open>autoTranslatePlaceholders\<close> returns has the input item
  as its first component. For math that contains \<^verbatim>\<open>\text\<close> the code returns
  \<^verbatim>\<open>[englishStr, null]\<close>: the first component is the English string, not the item. Here
  the item is the object \<^verbatim>\<open>{englishStr: "$\text{cost}$"}\<close>.
\<close>

theorem autoTranslate_text_returns_string:
  "autoTranslatePlaceholders [\<lparr>englishStr = text_math\<rparr>] PT englishStr =
     [(EnglishStr text_math, None)] \<and>
   autoTranslatePlaceholders [\<lparr>englishStr = text_math\<rparr>] PT englishStr \<noteq>
     [(Item \<lparr>englishStr = text_math\<rparr>, None)]"
  by (simp add: eval_defs text_math_def)

section \<open>suggest\<close>

lemma findTranslationPair_first:
  "findTranslationPair pairs =
     (case filter (\<lambda>p. truthy (fst p) \<and> truthy (snd p)) pairs of
        [] \<Rightarrow> Inl (Error ''couldn't find translation pair'')
      | p # _ \<Rightarrow> Inr (the (fst p), the (snd p)))"
  by (induction pairs) auto

lemma suggest_fallback:
  assumes "group items g = Inr gs"
    and "(\<exists>e. findTranslationPair pairs = Inl e) \<or> 1 < length gs"
  shows "suggest pairs items lang g = Inr (autoTranslatePlaceholders items lang g)"
  using assms by (auto simp: suggest_def split: sum.splits)

text \<open>When \<^verbatim>\<open>group\<close> returns at most one group, a reference pair is found and
  \<^verbatim>\<open>createTemplate\<close> fails on it, \<^verbatim>\<open>suggest\<close> returns that failure: no suggestions and no
  auto-translation.\<close>

lemma suggest_propagates_template_failure:
  assumes "findTranslationPair pairs = Inr (e, t)"
    and "group items g = Inr gs"
    and "length gs \<le> 1"
    and "createTemplate e t lang = Inl err"
  shows "suggest pairs items lang g = Inl err"
  using assms by (simp add: suggest_def)

lemma suggest_propagates_template_failure_example:
  "findTranslationPair [(Some (str ''$a$''), Some (str ''$b$''))] =
     Inr (str ''$a$'', str ''$b$'') \<and>
   group [str ''x''] id = Inr [(str ''x'', [str ''x''])] \<and>
   length [(str ''x'', [str ''x''])] \<le> 1 \<and>
   createTemplate (str ''$a$'') (str ''$b$'') PT = Inl (Error ''math doesn't match'') \<and>
   suggest [(Some (str ''$a$''), Some (str ''$b$''))] [str ''x''] PT id =
     Inl (Error ''math doesn't match'')"
proof -
  have h1: "findTranslationPair [(Some (str ''$a$''), Some (str ''$b$''))] =
      Inr (str ''$a$'', str ''$b$'')"
    by (simp add: truthy_def str_def)
  have h2: "group [str ''x''] id = Inr [(str ''x'', [str ''x''])]"
    by (simp add: eval_defs Let_def)
  have h3: "length [(str ''x'', [str ''x''])] \<le> 1" by simp
  have h4: "createTemplate (str ''$a$'') (str ''$b$'') PT = Inl (Error ''math doesn't match'')"
    by (simp add: eval_defs)
  from suggest_propagates_template_failure[OF h1 h2 h3 h4] h1 h2 h4 show ?thesis by simp
qed

text \<open>
  Claim C3 says that with a usable reference pair and items in at most one normalized
  group, a failure of \<^verbatim>\<open>createTemplate\<close> is what \<^verbatim>\<open>suggest\<close> returns. \<^verbatim>\<open>suggest\<close> calls \<^verbatim>\<open>group\<close>
  before \<^verbatim>\<open>createTemplate\<close>: with the pair (\<^verbatim>\<open>$a$\<close>, \<^verbatim>\<open>$b$\<close>), on which \<^verbatim>\<open>createTemplate\<close> fails
  with \<^verbatim>\<open>math doesn't match\<close>, and the single item \<^verbatim>\<open>constructor\<close>, \<^verbatim>\<open>group\<close> throws on the
  inherited key and the failure of the template is never returned.
\<close>

theorem suggest_throws_before_template_failure:
  "findTranslationPair [(Some (str ''$a$''), Some (str ''$b$''))] =
     Inr (str ''$a$'', str ''$b$'') \<and>
   normalizeString (str ''constructor'') = str ''constructor'' \<and>
   createTemplate (str ''$a$'') (str ''$b$'') PT = Inl (Error ''math doesn't match'') \<and>
   suggest [(Some (str ''$a$''), Some (str ''$b$''))] [str ''constructor''] PT id =
     Inl TypeError"
  by (simp add: eval_defs)

text \<open>
  Claim C6 says that \<^verbatim>\<open>group\<close> partitions every list of items. When \<^verbatim>\<open>group\<close> returns it
  does (\<open>group_partition\<close>), but for an item whose normalized English string names a
  property every object inherits, such as \<^verbatim>\<open>constructor\<close>, the lookup
  \<^verbatim>\<open>stringMatches[str]\<close> finds the inherited function, \<^verbatim>\<open>push\<close> is not a function of it,
  and \<^verbatim>\<open>group\<close> throws.
\<close>

theorem group_throws_on_inherited_key:
  "group [str ''constructor''] id = Inl TypeError"
  by (simp add: eval_defs)

text \<open>
  Claim C2 says that \<^verbatim>\<open>suggest\<close> returns the result of the auto-translator whenever there
  is no usable reference pair or more than one group. When \<^verbatim>\<open>group\<close> returns it does
  (\<open>suggest_fallback\<close>, and \<open>findTranslationPair_first\<close> for the choice of the pair), but
  \<^verbatim>\<open>suggest\<close> calls \<^verbatim>\<open>group\<close> before it decides, so with no reference pair and the single
  item \<^verbatim>\<open>constructor\<close> it throws where the auto-translator returns a pair.
\<close>

theorem suggest_throws_on_inherited_key:
  "suggest [] [str ''constructor''] PT id = Inl TypeError \<and>
   autoTranslatePlaceholders [str ''constructor''] PT id = [(Item (str ''constructor''), None)]"
  by (simp add: eval_defs)

section \<open>getMapping and createTemplate\<close>

lemma indexOf_None: "indexOf xs x = None \<longleftrightarrow> x \<notin> set xs"
  by (induction xs) auto

lemma indexOf_Some: "indexOf xs x = Some i \<Longrightarrow> i < length xs \<and> xs ! i = x"
  by (induction xs arbitrary: i) (auto split: if_splits)

lemma getMapping_loop_Inl:
  "getMapping_loop inputs lang k outputs = Inl e \<Longrightarrow>
   e = Error (mismatch_message k) \<and> (\<exists>out \<in> set outputs. rewrite_output lang out \<notin> set inputs)"
  by (induction outputs) (auto simp: indexOf_None split: option.splits sum.splits)

lemma getMapping_loop_Inr:
  "getMapping_loop inputs lang k outputs = Inr m \<Longrightarrow>
   length m = length outputs \<and>
   (\<forall>i < length outputs. m ! i < length inputs \<and> inputs ! (m ! i) = rewrite_output lang (outputs ! i))"
proof (induction outputs arbitrary: m)
  case Nil
  then show ?case by simp
next
  case (Cons out rest)
  then obtain j m' where j: "indexOf inputs (rewrite_output lang out) = Some j"
    and m': "getMapping_loop inputs lang k rest = Inr m'" and m: "m = j # m'"
    by (auto split: option.splits sum.splits)
  from Cons.IH[OF m'] indexOf_Some[OF j] m show ?case
    by (auto simp: nth_Cons split: nat.splits)
qed

lemma getMapping_Inl_iff:
  "(\<exists>e. getMapping e0 t lang k = Inl e) \<longleftrightarrow> unmatched e0 t lang k"
proof
  assume "\<exists>e. getMapping e0 t lang k = Inl e"
  then show "unmatched e0 t lang k"
    by (auto simp: getMapping_def unmatched_def dest: getMapping_loop_Inl)
next
  assume u: "unmatched e0 t lang k"
  show "\<exists>e. getMapping e0 t lang k = Inl e"
  proof (cases "getMapping e0 t lang k")
    case (Inl e)
    then show ?thesis by blast
  next
    case (Inr m)
    from u obtain i where i: "i < length (match_all (regex_of k) t)"
      and bad: "rewrite_output lang (match_all (regex_of k) t ! i) \<notin> set (match_all (regex_of k) e0)"
      by (auto simp: unmatched_def in_set_conv_nth)
    from getMapping_loop_Inr[OF Inr[unfolded getMapping_def]] i
    have "m ! i < length (match_all (regex_of k) e0)"
      and "match_all (regex_of k) e0 ! (m ! i) = rewrite_output lang (match_all (regex_of k) t ! i)"
      by auto
    then have "rewrite_output lang (match_all (regex_of k) t ! i) \<in> set (match_all (regex_of k) e0)"
      by (metis nth_mem)
    with bad show ?thesis by contradiction
  qed
qed

lemma getMapping_Inl_message:
  "getMapping e0 t lang k = Inl e \<Longrightarrow> e = Error (mismatch_message k)"
  by (auto simp: getMapping_def dest: getMapping_loop_Inl)

lemma createTemplate_cases:
  "createTemplate e0 t lang =
     (if unmatched e0 t lang Math then Inl (Error (mismatch_message Math))
      else if unmatched e0 t lang Graphie then Inl (Error (mismatch_message Graphie))
      else if unmatched e0 t lang Widget then Inl (Error (mismatch_message Widget))
      else Inr \<lparr>lines = map mask_specials (split_lines t),
                mathMapping = projr (getMapping e0 t lang Math),
                graphieMapping = projr (getMapping e0 t lang Graphie),
                widgetMapping = projr (getMapping e0 t lang Widget)\<rparr>)"
proof -
  have a: "getMapping e0 t lang k = Inl (Error (mismatch_message k))" if "unmatched e0 t lang k" for k
    using that getMapping_Inl_iff[of e0 t lang k] getMapping_Inl_message[of e0 t lang k] by auto
  have b: "\<exists>m. getMapping e0 t lang k = Inr m" if "\<not> unmatched e0 t lang k" for k
    using that getMapping_Inl_iff[of e0 t lang k] by (cases "getMapping e0 t lang k") auto
  show ?thesis
    using a[of Math] a[of Graphie] a[of Widget] b[of Math] b[of Graphie] b[of Widget]
    by (auto simp: createTemplate_def Let_def)
qed



section \<open>Paragraphs\<close>

subsection \<open>split and join\<close>

lemma split_lines_not_Nil: "split_lines s \<noteq> []"
  by (induction s rule: split_lines.induct) (auto split: list.splits)

lemma join_lines_Cons_Cons: "join_lines ((c # l) # ls) = c # join_lines (l # ls)"
  by (cases ls) auto

lemma join_split_lines: "join_lines (split_lines s) = s"
proof (induction s rule: split_lines.induct)
  case (3 c d cs)
  show ?case
  proof (cases "c = LF \<and> d = LF")
    case True
    with 3 show ?thesis
      by (cases "split_lines cs") (auto simp: split_lines_not_Nil LINE_BREAK_def)
  next
    case False
    with 3 show ?thesis
      by (auto simp: join_lines_Cons_Cons split: list.splits)
  qed
qed auto

lemma split_lines_single_Cons:
  "split_lines (c # d # cs) = [c # d # cs] \<longleftrightarrow>
     \<not> (c = LF \<and> d = LF) \<and> split_lines (d # cs) = [d # cs]"
  by (auto split: list.splits)

lemma split_lines_single_tl: "split_lines (c # s) = [c # s] \<Longrightarrow> split_lines s = [s]"
  by (cases s) (auto simp: split_lines_single_Cons simp del: split_lines.simps(3))

lemma split_lines_single_suffix: "split_lines (xs @ ys) = [xs @ ys] \<Longrightarrow> split_lines ys = [ys]"
  by (induction xs) (auto dest: split_lines_single_tl)

lemma split_lines_single_prefix: "split_lines (xs @ ys) = [xs @ ys] \<Longrightarrow> split_lines xs = [xs]"
proof (induction xs rule: split_lines.induct)
  case (3 c d cs)
  from 3(3) have "\<not> (c = LF \<and> d = LF)" and "split_lines ((d # cs) @ ys) = [(d # cs) @ ys]"
    using split_lines_single_Cons[of c d "cs @ ys"] by auto
  with 3 show ?case
    using split_lines_single_Cons[of c d cs] by auto
qed auto

lemma split_lines_append_break:
  "split_lines l = [l] \<Longrightarrow> l = [] \<or> last l \<noteq> LF \<Longrightarrow>
   split_lines (l @ LF # LF # rest) = l # split_lines rest"
proof (induction l rule: split_lines.induct)
  case (3 c d cs)
  from 3(3) have nb: "\<not> (c = LF \<and> d = LF)" and s: "split_lines (d # cs) = [d # cs]"
    using split_lines_single_Cons[of c d cs] by auto
  from 3(4) have "d # cs = [] \<or> last (d # cs) \<noteq> LF" by auto
  from 3(2)[OF nb s this] nb show ?case by simp
qed auto

lemma split_join_lines:
  "ls \<noteq> [] \<Longrightarrow> \<forall>l \<in> set ls. single_paragraph l \<Longrightarrow> split_lines (join_lines ls) = ls"
proof (induction ls rule: join_lines.induct)
  case (3 l k ls)
  then show ?case
    by (simp add: single_paragraph_def LINE_BREAK_def split_lines_append_break)
qed (auto simp: single_paragraph_def)

lemma split_lines_hd: "split_lines s = (e # l) # ls \<Longrightarrow> \<exists>s'. s = e # s'"
  by (induction s rule: split_lines.induct) (auto split: if_splits list.splits)

lemma split_lines_lines_single: "l \<in> set (split_lines s) \<Longrightarrow> split_lines l = [l]"
proof (induction s arbitrary: l rule: split_lines.induct)
  case (3 c d cs)
  show ?case
  proof (cases "c = LF \<and> d = LF")
    case True
    with 3 show ?thesis by auto
  next
    case False
    obtain l0 ls where sp: "split_lines (d # cs) = l0 # ls"
      using split_lines_not_Nil[of "d # cs"] by (cases "split_lines (d # cs)") auto
    with False 3(3) have "l = c # l0 \<or> l \<in> set ls" by auto
    then show ?thesis
    proof
      assume l: "l = c # l0"
      have l0: "split_lines l0 = [l0]" using 3(2)[OF False, of l0] sp by simp
      show ?thesis
      proof (cases l0)
        case Nil
        with l show ?thesis by simp
      next
        case (Cons e l0')
        with sp split_lines_hd[of "d # cs" e l0' ls] have "e = d" by auto
        with l Cons l0 False show ?thesis
          using split_lines_single_Cons[of c d l0'] by simp
      qed
    next
      assume "l \<in> set ls"
      with 3(2)[OF False, of l] sp show ?thesis by simp
    qed
  qed
qed auto

subsection \<open>populateTemplate line by line\<close>

lemma populateTemplate_populated_lines:
  "populateTemplate t e lang =
     (case populated_lines t e of Inl err \<Rightarrow> Inl err | Inr ls \<Rightarrow> Inr (join_lines ls))"
  by (simp add: populateTemplate_def populated_lines_def Let_def)

lemma populate_line_lines_update:
  "populate_line (t\<lparr>lines := x\<rparr>) ms gs ws cnt l = populate_line t ms gs ws cnt l"
  by (simp add: populate_line_def)

lemma populate_lines_returns:
  "index + length els \<le> length (lines t) \<Longrightarrow>
   \<exists>ls. populate_lines t ms gs ws index cnt els = Inr ls \<and> length ls = length els"
proof (induction els arbitrary: index cnt)
  case Nil
  then show ?case by simp
next
  case (Cons el rest)
  obtain l cnt' where pl: "populate_line t ms gs ws cnt (lines t ! index) = (l, cnt')"
    by (cases "populate_line t ms gs ws cnt (lines t ! index)")
  from Cons.prems have "Suc index + length rest \<le> length (lines t)" by simp
  from Cons.IH[OF this, of cnt'] Cons.prems pl show ?case by auto
qed

lemma populate_lines_take:
  "index + length els \<le> n \<Longrightarrow>
   populate_lines (t\<lparr>lines := take n (lines t)\<rparr>) ms gs ws index cnt els =
   populate_lines t ms gs ws index cnt els"
proof (induction els arbitrary: index cnt)
  case Nil
  then show ?case by simp
next
  case (Cons el rest)
  from Cons.prems have "Suc index + length rest \<le> n" and "index < n" by simp_all
  with Cons.IH[of "Suc index"] show ?case
    by (auto simp: populate_line_lines_update split: prod.splits sum.splits)
qed

lemma populate_lines_throws:
  "els \<noteq> [] \<Longrightarrow> index \<le> length (lines t) \<Longrightarrow> length (lines t) < index + length els \<Longrightarrow>
   populate_lines t ms gs ws index cnt els = Inl TypeError"
proof (induction els arbitrary: index cnt)
  case Nil
  then show ?case by simp
next
  case (Cons el rest)
  show ?case
  proof (cases "index < length (lines t)")
    case True
    with Cons.prems have "rest \<noteq> []" "Suc index \<le> length (lines t)"
      "length (lines t) < Suc index + length rest" by auto
    from Cons.IH[OF this] True show ?thesis by (auto split: prod.splits)
  next
    case False
    then show ?thesis by simp
  qed
qed

lemma populateTemplate_throws:
  "length (lines t) < length (split_lines e) \<Longrightarrow> populateTemplate t e lang = Inl TypeError"
  using populate_lines_throws[of "split_lines e" 0 t] split_lines_not_Nil[of e]
  by (simp add: populateTemplate_populated_lines populated_lines_def)

text \<open>
  Claim C10, amended. When the English string has no more paragraphs than the template
  has lines, \<^verbatim>\<open>populateTemplate\<close> returns the join of exactly one populated line per
  paragraph of the English string, and the template lines beyond that count have no
  effect on the result. The result has exactly as many paragraphs as the English string
  provided every populated line is a single paragraph (no \<^verbatim>\<open>LINE_BREAK\<close> inside it, and
  no line feed at its end).
\<close>

theorem populateTemplate_paragraphs:
  assumes "length (split_lines e) \<le> length (lines t)"
  shows "\<exists>ls. populated_lines t e = Inr ls \<and> length ls = length (split_lines e) \<and>
           populateTemplate t e lang = Inr (join_lines ls) \<and>
           populateTemplate (t\<lparr>lines := take (length (split_lines e)) (lines t)\<rparr>) e lang =
             Inr (join_lines ls) \<and>
           ((\<forall>l \<in> set ls. single_paragraph l) \<longrightarrow>
              length (split_lines (join_lines ls)) = length (split_lines e))"
proof -
  from assms populate_lines_returns[of 0 "split_lines e" t]
  obtain ls where ls: "populated_lines t e = Inr ls" and len: "length ls = length (split_lines e)"
    unfolding populated_lines_def by force
  have ne: "ls \<noteq> []" using len split_lines_not_Nil[of e] by auto
  have "populated_lines (t\<lparr>lines := take (length (split_lines e)) (lines t)\<rparr>) e =
      populated_lines t e"
    unfolding populated_lines_def by (simp add: populate_lines_take)
  with ls len ne show ?thesis
    by (auto simp: populateTemplate_populated_lines split_join_lines)
qed

text \<open>
  Without that proviso claim C10 fails: a math occurrence may contain \<^verbatim>\<open>LINE_BREAK\<close>. The
  English string \<^verbatim>\<open>$a\n\nb$\<close> has two paragraphs and one math occurrence; populating the
  two-line template of the pair (\<^verbatim>\<open>$x$\<close>, \<^verbatim>\<open>$x$\n\ny\<close>) with it gives three paragraphs.
\<close>

theorem populateTemplate_extra_paragraph:
  "createTemplate (str ''$x$'') (str ''$x$'' @ LINE_BREAK @ str ''y'') PT = Inr two_line_template \<and>
   length (split_lines split_math) = 2 \<and> length (lines two_line_template) = 2 \<and>
   match_all MATH_REGEX split_math = [split_math] \<and>
   match_all GRAPHIE_REGEX split_math = [] \<and> match_all WIDGET_REGEX split_math = [] \<and>
   populateTemplate two_line_template split_math PT =
     Inr (split_math @ LINE_BREAK @ str ''y'') \<and>
   length (split_lines (split_math @ LINE_BREAK @ str ''y'')) = 3"
  by (simp add: eval_defs split_math_def two_line_template_def)

theorem populateTemplate_paragraphs_witness:
  "length (split_lines new_english) \<le> length (lines example_template) \<and>
   populated_lines example_template new_english =
     Inr [str ''simplifique $3/12$'', str ''pista: o denominador '' @ [233] @ str '' $4$''] \<and>
   single_paragraph (str ''simplifique $3/12$'') \<and>
   single_paragraph (str ''pista: o denominador '' @ [233] @ str '' $4$'') \<and>
   length (split_lines (join_lines
     [str ''simplifique $3/12$'', str ''pista: o denominador '' @ [233] @ str '' $4$''])) =
   length (split_lines new_english)"
proof -
  have h: "length (split_lines new_english) \<le> length (lines example_template)"
    by (simp add: eval_defs new_english_def example_template_def)
  have p: "populated_lines example_template new_english =
     Inr [str ''simplifique $3/12$'', str ''pista: o denominador '' @ [233] @ str '' $4$'']"
    by (simp add: eval_defs populated_lines_def new_english_def example_template_def)
  have s1: "single_paragraph (str ''simplifique $3/12$'')"
    by (simp add: single_paragraph_def str_def)
  have s2: "single_paragraph (str ''pista: o denominador '' @ [233] @ str '' $4$'')"
    by (simp add: single_paragraph_def str_def)
  from populateTemplate_paragraphs[OF h, of PT] p s1 s2 h show ?thesis
    by auto
qed

section \<open>Normalizing twice\<close>

lemma replace_all_fixed:
  "\<forall>occ \<in> set (match_all m s). f occ = occ \<Longrightarrow> replace_all m f s = s"
proof (induction m f s rule: replace_all.induct)
  case (1 m f)
  then show ?case by simp
next
  case (2 m f c cs)
  then show ?case
    by (cases "m (c # cs)") auto
qed

lemma trim_parts: "\<exists>pre post. s = pre @ trim s @ post"
proof -
  let ?t = "dropWhile is_space s"
  have "s = takeWhile is_space s @ ?t" by simp
  moreover have "?t = trim s @ rev (takeWhile is_space (rev ?t))"
    unfolding trim_def by (metis rev_append rev_rev_ident takeWhile_dropWhile_id)
  ultimately show ?thesis by metis
qed

lemma trim_last: "trim s \<noteq> [] \<Longrightarrow> \<not> is_space (last (trim s))"
  unfolding trim_def by (metis hd_dropWhile hd_rev rev_is_Nil_conv rev_rev_ident)

lemma trim_hd: "trim s \<noteq> [] \<Longrightarrow> \<not> is_space (hd (trim s))"
proof -
  assume ne: "trim s \<noteq> []"
  let ?t = "dropWhile is_space s"
  obtain post where t: "?t = trim s @ post"
    unfolding trim_def by (metis rev_append rev_rev_ident takeWhile_dropWhile_id)
  with ne have "?t \<noteq> []" by auto
  then have "\<not> is_space (hd ?t)" by (rule hd_dropWhile)
  with t ne show ?thesis by (cases "trim s") auto
qed

lemma trim_trim: "trim (trim s) = trim s"
proof (cases "trim s = []")
  case True
  have "trim [] = []" by (simp add: trim_def)
  with True show ?thesis by simp
next
  case False
  from trim_hd[OF False] False have a: "dropWhile is_space (trim s) = trim s"
    by (cases "trim s") auto
  from trim_last[OF False] False have b: "dropWhile is_space (rev (trim s)) = rev (trim s)"
    by (cases "rev (trim s)") (auto simp: last_rev hd_rev dest: arg_cong[where f=hd])
  show ?thesis
    using a b by (simp add: trim_def[of "trim s"])
qed

lemma single_paragraph_trim: "split_lines l = [l] \<Longrightarrow> single_paragraph (trim l)"
proof -
  assume l: "split_lines l = [l]"
  obtain pre post where "l = pre @ trim l @ post" using trim_parts by blast
  with l have "split_lines (trim l) = [trim l]"
    by (metis split_lines_single_prefix split_lines_single_suffix)
  moreover have "trim l = [] \<or> last (trim l) \<noteq> LF"
    using trim_last[of l] by (auto simp: is_space_def)
  ultimately show ?thesis by (simp add: single_paragraph_def)
qed

lemma normalizeString_lines:
  "\<exists>ls. ls \<noteq> [] \<and> (\<forall>l \<in> set ls. split_lines l = [l]) \<and> normalizeString s = join_lines (map trim ls)"
  unfolding normalizeString_def
  using split_lines_not_Nil split_lines_lines_single by blast

text \<open>
  Claim C7, amended. Normalizing a normalized string changes nothing when the normalized
  string is settled: it contains no Math, Graphie or Widget occurrence and no bold span,
  and every match of \<^verbatim>\<open>__MATH__[\t ]*__WIDGET__\<close> in it already has the single space. The
  second pass then only splits, trims and joins the paragraphs again.
\<close>

theorem normalizeString_idempotent_when_settled:
  assumes "match_all MATH_REGEX (normalizeString s) = []"
    and "match_all GRAPHIE_REGEX (normalizeString s) = []"
    and "match_all WIDGET_REGEX (normalizeString s) = []"
    and "\<forall>occ \<in> set (match_all MATH_WIDGET_REGEX (normalizeString s)).
           occ = MATH_PH @ [SPACE] @ WIDGET_PH"
    and "match_all BOLD_REGEX (normalizeString s) = []"
  shows "normalizeString (normalizeString s) = normalizeString s"
proof -
  let ?n = "normalizeString s"
  have mask: "mask_specials ?n = ?n"
    using assms(1-3) by (simp add: mask_specials_def replace_all_fixed)
  have mw: "replace_all MATH_WIDGET_REGEX (\<lambda>_. MATH_PH @ [SPACE] @ WIDGET_PH) ?n = ?n"
    using assms(4) by (intro replace_all_fixed) auto
  have bold: "replace_all BOLD_REGEX strip_bold ?n = ?n"
    using assms(5) by (simp add: replace_all_fixed)
  have steps: "normalizeString ?n = join_lines (map trim (split_lines ?n))"
    by (subst normalizeString_def) (simp only: mask mw bold)
  obtain ls where ne: "ls \<noteq> []" and single: "\<forall>l \<in> set ls. split_lines l = [l]"
    and n: "?n = join_lines (map trim ls)"
    using normalizeString_lines by blast
  have "split_lines ?n = map trim ls"
    unfolding n using ne single by (intro split_join_lines) (auto simp: single_paragraph_trim)
  then have "normalizeString ?n = join_lines (map trim (map trim ls))"
    using steps by simp
  also have "\<dots> = ?n" by (simp add: n trim_trim o_def)
  finally show ?thesis .
qed

lemma ref_english_normalized:
  "normalizeString ref_english =
     str ''simplify __MATH__'' @ LINE_BREAK @ str ''hint: the denominator is __MATH__''"
  by (simp add: eval_defs ref_english_def)

theorem normalizeString_idempotent_when_settled_witness:
  "match_all MATH_REGEX (normalizeString ref_english) = [] \<and>
   match_all GRAPHIE_REGEX (normalizeString ref_english) = [] \<and>
   match_all WIDGET_REGEX (normalizeString ref_english) = [] \<and>
   match_all MATH_WIDGET_REGEX (normalizeString ref_english) = [] \<and>
   match_all BOLD_REGEX (normalizeString ref_english) = [] \<and>
   normalizeString (normalizeString ref_english) = normalizeString ref_english"
proof -
  have h1: "match_all MATH_REGEX (normalizeString ref_english) = []"
    unfolding ref_english_normalized by (simp add: eval_defs)
  have h2: "match_all GRAPHIE_REGEX (normalizeString ref_english) = []"
    unfolding ref_english_normalized by (simp add: eval_defs)
  have h3: "match_all WIDGET_REGEX (normalizeString ref_english) = []"
    unfolding ref_english_normalized by (simp add: eval_defs)
  have h4: "match_all MATH_WIDGET_REGEX (normalizeString ref_english) = []"
    unfolding ref_english_normalized by (simp add: eval_defs)
  have h5: "match_all BOLD_REGEX (normalizeString ref_english) = []"
    unfolding ref_english_normalized by (simp add: eval_defs)
  have h4': "\<forall>occ \<in> set (match_all MATH_WIDGET_REGEX (normalizeString ref_english)).
           occ = MATH_PH @ [SPACE] @ WIDGET_PH"
    using h4 by simp
  from normalizeString_idempotent_when_settled[OF h1 h2 h3 h4' h5] h1 h2 h3 h4 h5
  show ?thesis by simp
qed

text \<open>
  For every string, as claim C7 has it, the property fails: the bold pattern matches from
  the first \<^verbatim>\<open>**\<close> to the last, so \<^verbatim>\<open>**a** **b**\<close> becomes \<^verbatim>\<open>a** **b\<close>, which the second
  pass turns into \<^verbatim>\<open>a b\<close>.
\<close>

theorem normalizeString_not_idempotent:
  "normalizeString (normalizeString two_bold_spans) \<noteq> normalizeString two_bold_spans"
  by (simp add: eval_defs two_bold_spans_def)

section \<open>The round trip through a template\<close>

subsection \<open>Scanning past text without a match, and over a match\<close>

lemma inert_Nil: "inert m [] rest"
  by (simp add: inert_def)

lemma inert_Cons: "inert m (c # pre) rest \<longleftrightarrow> m (c # pre @ rest) = None \<and> inert m pre rest"
  by (auto simp: inert_def less_Suc_eq_0_disj)

lemma inert_append:
  "inert m (xs @ ys) rest \<longleftrightarrow> inert m xs (ys @ rest) \<and> inert m ys rest"
  by (induction xs) (auto simp: inert_Nil inert_Cons)

lemma inert_by_first:
  "(\<And>c s. c \<in> set pre \<Longrightarrow> m (c # s) = None) \<Longrightarrow> inert m pre rest"
  by (induction pre) (auto simp: inert_Nil inert_Cons)

lemma replace_all_inert:
  "inert m pre rest \<Longrightarrow> replace_all m f (pre @ rest) = pre @ replace_all m f rest"
  by (induction pre) (auto simp: inert_Cons)

lemma match_all_inert:
  "inert m pre rest \<Longrightarrow> match_all m (pre @ rest) = match_all m rest"
  by (induction pre) (auto simp: inert_Cons)

lemma replace_counting_inert:
  "inert m pre rest \<Longrightarrow>
   replace_counting m f i (pre @ rest) =
     (case replace_counting m f i rest of (r, j) \<Rightarrow> (pre @ r, j))"
  by (induction pre) (auto simp: inert_Cons split: prod.splits)

lemma replace_all_hit:
  "occ \<noteq> [] \<Longrightarrow> m (occ @ rest) = Some (length occ) \<Longrightarrow>
   replace_all m f (occ @ rest) = f occ @ replace_all m f rest"
  by (cases occ) auto

lemma match_all_hit:
  "occ \<noteq> [] \<Longrightarrow> m (occ @ rest) = Some (length occ) \<Longrightarrow>
   match_all m (occ @ rest) = occ # match_all m rest"
  by (cases occ) auto

lemma replace_counting_hit:
  "occ \<noteq> [] \<Longrightarrow> m (occ @ rest) = Some (length occ) \<Longrightarrow>
   replace_counting m f i (occ @ rest) =
     (case replace_counting m f (Suc i) rest of (r, j) \<Rightarrow> (f i @ r, j))"
  by (cases occ) auto

subsection \<open>What the patterns match\<close>

lemma lit_then_first: "p \<noteq> [] \<Longrightarrow> c \<noteq> hd p \<Longrightarrow> lit_then p k (c # s) = None"
  by (cases p) (auto simp: lit_then_def lit_def)

lemma lit_first: "p \<noteq> [] \<Longrightarrow> c \<noteq> hd p \<Longrightarrow> lit p (c # s) = None"
  by (cases p) (auto simp: lit_def)

lemma lit_then_prefix: "lit_then p k (p @ s) = map_option (\<lambda>j. length p + j) (k s)"
  by (simp add: lit_then_def lit_def)

lemma lit_prefix: "lit p (p @ s) = Some (length p)"
  by (simp add: lit_def)

lemma regex_first: "c \<noteq> hd (opener k) \<Longrightarrow> regex_of k (c # s) = None"
  by (cases k) (auto simp: MATH_REGEX_def GRAPHIE_REGEX_def WIDGET_REGEX_def lit_then_first)

lemma placeholder_first: "c \<noteq> UNDERSCORE \<Longrightarrow> lit (placeholder k) (c # s) = None"
  by (cases k) (auto simp: MATH_PH_def GRAPHIE_PH_def WIDGET_PH_def lit_def)

lemma rep_then_run:
  "\<forall>c \<in> set body. cls c \<Longrightarrow> seen \<or> body \<noteq> [] \<Longrightarrow> \<not> cls d \<Longrightarrow> k (d # rest) = Some n \<Longrightarrow>
   rep_then cls k seen (body @ d # rest) = Some (length body + n)"
  by (induction body arbitrary: seen) auto

lemma math_iter_run:
  "DOLLAR \<notin> set body \<Longrightarrow> body \<noteq> [] \<Longrightarrow> last body \<noteq> BACKSLASH \<Longrightarrow>
   math_iter seen (body @ DOLLAR # rest) = Some (length body + 1)"
proof (induction body arbitrary: seen)
  case Nil
  then show ?case by simp
next
  case (Cons c body)
  show ?case
  proof (cases body)
    case Nil
    with Cons.prems show ?thesis by (cases rest) auto
  next
    case (Cons d body')
    with Cons.prems Cons.IH[of True] show ?thesis by auto
  qed
qed

lemma regex_occurrence:
  "wf_body k body \<Longrightarrow>
   regex_of k (occurrence k body @ rest) = Some (length (occurrence k body))"
proof (cases k)
  case Math
  assume "wf_body k body"
  with Math have "DOLLAR \<notin> set body" "body \<noteq> []" "last body \<noteq> BACKSLASH"
    by (auto simp: list_all_iff plain_def)
  from math_iter_run[OF this, of False rest] Math show ?thesis
    by (simp add: occurrence_def MATH_REGEX_def lit_then_def lit_def)
next
  case Graphie
  assume "wf_body k body"
  with Graphie have "\<forall>c \<in> set body. c \<noteq> RPAREN" "False \<or> body \<noteq> []" by auto
  from rep_then_run[OF this, of RPAREN "lit [RPAREN]" rest 1] Graphie show ?thesis
    by (simp add: occurrence_def GRAPHIE_REGEX_def lit_then_def lit_def)
next
  case Widget
  assume "wf_body k body"
  with Widget have "\<forall>c \<in> set body. c \<noteq> RBRACKET" "False \<or> body \<noteq> []" by auto
  from rep_then_run[OF this, of RBRACKET "lit [RBRACKET, RBRACKET]" "RBRACKET # rest" 2] Widget
  show ?thesis
    by (simp add: occurrence_def WIDGET_REGEX_def lit_then_def lit_def)
qed

subsection \<open>Tokens the patterns pass over\<close>

lemma occurrence_not_Nil: "occurrence k body \<noteq> []"
  by (cases k) (auto simp: occurrence_def)

lemma placeholder_not_Nil: "placeholder k \<noteq> []"
  by (cases k) (auto simp: MATH_PH_def GRAPHIE_PH_def WIDGET_PH_def)

lemma placeholder_chars:
  "c \<in> set (placeholder k) \<Longrightarrow> c \<noteq> DOLLAR \<and> c \<noteq> BANG \<and> c \<noteq> LBRACKET"
  by (cases k) (auto simp: MATH_PH_def GRAPHIE_PH_def WIDGET_PH_def)

lemma wf_body_plain: "wf_body k body \<Longrightarrow> list_all plain body \<and> body \<noteq> []"
  by (cases k) simp_all

lemma opener_closer_chars:
  "c \<in> set (opener k) \<union> set (closer k) \<Longrightarrow> c \<noteq> UNDERSCORE"
  by (cases k) auto

lemma occurrence_no_underscore:
  assumes "wf_body k body" and "c \<in> set (occurrence k body)"
  shows "c \<noteq> UNDERSCORE"
proof -
  from assms(2) have "c \<in> set (opener k) \<union> set (closer k) \<or> c \<in> set body"
    by (auto simp: occurrence_def)
  then show ?thesis
  proof
    assume "c \<in> set (opener k) \<union> set (closer k)"
    then show ?thesis by (rule opener_closer_chars)
  next
    assume "c \<in> set body"
    with wf_body_plain[OF assms(1)] show ?thesis by (auto simp: list_all_iff plain_def)
  qed
qed

lemma opener_hd: "hd (opener k) = DOLLAR \<or> hd (opener k) = BANG \<or> hd (opener k) = LBRACKET"
  by (cases k) auto

lemma inert_regex_plain: "list_all plain tx \<Longrightarrow> inert (regex_of k) tx rest"
  using opener_hd[of k]
  by (intro inert_by_first regex_first) (auto simp: list_all_iff plain_def)

lemma inert_regex_placeholder: "inert (regex_of k) (placeholder k') rest"
  using opener_hd[of k] placeholder_chars[of _ k']
  by (intro inert_by_first regex_first) metis

lemma inert_regex_LF: "inert (regex_of k) [LF, LF] rest"
  using opener_hd[of k]
  by (intro inert_by_first regex_first) auto

lemma inert_placeholder_plain: "list_all plain tx \<Longrightarrow> inert (lit (placeholder k)) tx rest"
  by (intro inert_by_first placeholder_first) (auto simp: list_all_iff plain_def)

lemma inert_placeholder_occurrence:
  "wf_body k' body \<Longrightarrow> inert (lit (placeholder k)) (occurrence k' body) rest"
  by (intro inert_by_first placeholder_first) (auto dest: occurrence_no_underscore)

lemma inert_regex_occurrence:
  assumes "wf_body k' body" and "k' \<noteq> k"
  shows "inert (regex_of k) (occurrence k' body) rest"
proof (cases "k = Widget \<and> k' = Graphie")
  case True
  have body: "inert WIDGET_REGEX body (RPAREN # rest)"
    using assms(1) True inert_regex_plain[of body Widget] by simp
  have tail: "inert WIDGET_REGEX [RPAREN] rest"
    by (intro inert_by_first) (auto simp: WIDGET_REGEX_def lit_then_def lit_def)
  have "inert WIDGET_REGEX ([BANG, LBRACKET, RBRACKET, LPAREN] @ body @ [RPAREN]) rest"
    unfolding inert_append using body tail
    by (simp add: inert_Cons inert_Nil) (simp add: WIDGET_REGEX_def lit_then_def lit_def)
  with True show ?thesis by (simp add: occurrence_def)
next
  case False
  have delim: "c \<noteq> hd (opener k)" if "c \<in> set (opener k') \<union> set (closer k')" for c
    using that assms(2) False by (cases k; cases k') auto
  have "c \<noteq> hd (opener k)" if c: "c \<in> set (occurrence k' body)" for c
  proof -
    from c have "c \<in> set (opener k') \<union> set (closer k') \<or> c \<in> set body"
      by (auto simp: occurrence_def)
    then show ?thesis
    proof
      assume "c \<in> set (opener k') \<union> set (closer k')"
      then show ?thesis by (rule delim)
    next
      assume "c \<in> set body"
      with wf_body_plain[OF assms(1)] have "plain c" by (auto simp: list_all_iff)
      with opener_hd[of k] show ?thesis by (auto simp: plain_def)
    qed
  qed
  then show ?thesis
    by (intro inert_by_first regex_first) auto
qed

lemma no_initial_take:
  "no_initial r \<Longrightarrow> take n r = c # cs \<Longrightarrow> c \<noteq> 77 \<and> c \<noteq> 71 \<and> c \<noteq> 87"
  by (cases r; cases n) (auto simp: no_initial_def)

lemma inert_placeholder_placeholder:
  assumes "k' \<noteq> k" and "next_ok rest"
  shows "inert (lit (placeholder k)) (placeholder k') rest"
proof (cases rest)
  case Nil
  with assms(1) show ?thesis
    by (cases k; cases k')
       (simp_all add: inert_Cons inert_Nil lit_def MATH_PH_def GRAPHIE_PH_def WIDGET_PH_def)
next
  case (Cons c rest')
  with assms(2) have c: "c \<noteq> 77 \<and> c \<noteq> 71 \<and> c \<noteq> 87"
    and r: "c = UNDERSCORE \<Longrightarrow> no_initial rest'"
    by (auto simp: next_ok_def no_initial_def split: if_splits)
  show ?thesis
    unfolding Cons using assms(1) c
    by (cases k; cases k')
       (auto simp: inert_Cons inert_Nil lit_def MATH_PH_def GRAPHIE_PH_def WIDGET_PH_def
          dest!: r no_initial_take)
qed

lemma next_ok_view: "next_ok (view shown ps)"
proof (cases ps)
  case Nil
  then show ?thesis by (simp add: next_ok_def)
next
  case (Cons p ps')
  obtain k body tx where p: "p = Piece k body tx" by (cases p)
  show ?thesis
    unfolding Cons p
    by (cases k)
       (auto simp: next_ok_def no_initial_def occurrence_def MATH_PH_def GRAPHIE_PH_def
          WIDGET_PH_def)
qed

lemma next_ok_text_view:
  "list_all plain tx \<Longrightarrow> no_initial tx \<Longrightarrow> next_ok (tx @ view shown ps)"
  using next_ok_view[of shown ps]
  by (cases tx) (auto simp: next_ok_def no_initial_def plain_def)

subsection \<open>One pass over a paragraph\<close>

lemma mask_token:
  assumes "wf_body k' body"
  shows "replace_all (regex_of k) (\<lambda>_. placeholder k)
           ((if shown k' then occurrence k' body else placeholder k') @ rest) =
         (if (shown(k := False)) k' then occurrence k' body else placeholder k') @
         replace_all (regex_of k) (\<lambda>_. placeholder k) rest"
proof (cases "shown k'")
  case False
  then show ?thesis
    by (simp add: replace_all_inert[OF inert_regex_placeholder])
next
  case True
  show ?thesis
  proof (cases "k' = k")
    case same: True
    from replace_all_hit[where occ="occurrence k' body" and m="regex_of k'" and rest=rest
        and f="\<lambda>_. placeholder k'", OF occurrence_not_Nil regex_occurrence[OF assms]]
    show ?thesis using True same by simp
  next
    case False
    from replace_all_inert[OF inert_regex_occurrence[OF assms False]]
    show ?thesis using True False by simp
  qed
qed

lemma mask_view:
  "list_all wf_piece ps \<Longrightarrow>
   replace_all (regex_of k) (\<lambda>_. placeholder k) (view shown ps @ rest) =
   view (shown(k := False)) ps @ replace_all (regex_of k) (\<lambda>_. placeholder k) rest"
proof (induction ps)
  case Nil
  then show ?case by simp
next
  case (Cons p ps)
  obtain k' body tx where p: "p = Piece k' body tx" by (cases p)
  from Cons.prems p have wf: "wf_body k' body" "list_all plain tx" "list_all wf_piece ps"
    by simp_all
  have "replace_all (regex_of k) (\<lambda>_. placeholder k) (view shown (p # ps) @ rest) =
      replace_all (regex_of k) (\<lambda>_. placeholder k)
        ((if shown k' then occurrence k' body else placeholder k') @ (tx @ (view shown ps @ rest)))"
    by (simp add: p)
  also have "\<dots> = (if (shown(k := False)) k' then occurrence k' body else placeholder k') @
      replace_all (regex_of k) (\<lambda>_. placeholder k) (tx @ (view shown ps @ rest))"
    by (rule mask_token[OF wf(1)])
  also have "replace_all (regex_of k) (\<lambda>_. placeholder k) (tx @ (view shown ps @ rest)) =
      tx @ replace_all (regex_of k) (\<lambda>_. placeholder k) (view shown ps @ rest)"
    by (rule replace_all_inert[OF inert_regex_plain[OF wf(2)]])
  also have "replace_all (regex_of k) (\<lambda>_. placeholder k) (view shown ps @ rest) =
      view (shown(k := False)) ps @ replace_all (regex_of k) (\<lambda>_. placeholder k) rest"
    by (rule Cons.IH[OF wf(3)])
  finally show ?case by (simp only: p view.simps occurrences.simps append_assoc)
qed

lemma occurrences_token:
  assumes "wf_body k' body"
  shows "match_all (regex_of k) (occurrence k' body @ rest) =
         (if k' = k then [occurrence k body] else []) @ match_all (regex_of k) rest"
proof (cases "k' = k")
  case True
  from match_all_hit[where occ="occurrence k' body" and m="regex_of k'" and rest=rest,
      OF occurrence_not_Nil regex_occurrence[OF assms]]
  show ?thesis using True by simp
next
  case False
  from match_all_inert[OF inert_regex_occurrence[OF assms False]]
  show ?thesis using False by simp
qed

lemma occurrences_view:
  "list_all wf_piece ps \<Longrightarrow>
   match_all (regex_of k) (view (\<lambda>_. True) ps @ rest) =
   occurrences k ps @ match_all (regex_of k) rest"
proof (induction ps)
  case Nil
  then show ?case by simp
next
  case (Cons p ps)
  obtain k' body tx where p: "p = Piece k' body tx" by (cases p)
  from Cons.prems p have wf: "wf_body k' body" "list_all plain tx" "list_all wf_piece ps"
    by simp_all
  have "match_all (regex_of k) (view (\<lambda>_. True) (p # ps) @ rest) =
      match_all (regex_of k) (occurrence k' body @ (tx @ (view (\<lambda>_. True) ps @ rest)))"
    by (simp add: p)
  also have "\<dots> = (if k' = k then [occurrence k body] else []) @
      match_all (regex_of k) (tx @ (view (\<lambda>_. True) ps @ rest))"
    by (rule occurrences_token[OF wf(1)])
  also have "match_all (regex_of k) (tx @ (view (\<lambda>_. True) ps @ rest)) =
      match_all (regex_of k) (view (\<lambda>_. True) ps @ rest)"
    by (rule match_all_inert[OF inert_regex_plain[OF wf(2)]])
  also have "\<dots> = occurrences k ps @ match_all (regex_of k) rest"
    by (rule Cons.IH[OF wf(3)])
  finally show ?case by (simp only: p view.simps occurrences.simps append_assoc)
qed

lemma fill_view:
  "list_all wf_piece ps \<Longrightarrow> \<not> shown k \<Longrightarrow>
   \<forall>n < length (occurrences k ps). f (i + n) = occurrences k ps ! n \<Longrightarrow>
   replace_counting (lit (placeholder k)) f i (view shown ps) =
   (view (shown(k := True)) ps, i + length (occurrences k ps))"
proof (induction ps arbitrary: i)
  case Nil
  then show ?case by simp
next
  case (Cons p ps)
  obtain k' body tx where p: "p = Piece k' body tx" by (cases p)
  from Cons.prems(1) p have wf: "wf_body k' body" "list_all plain tx" "no_initial tx"
    "list_all wf_piece ps"
    by simp_all
  have past_text: "replace_counting (lit (placeholder k)) f j (tx @ view shown ps) =
      (case replace_counting (lit (placeholder k)) f j (view shown ps) of
         (r, j') \<Rightarrow> (tx @ r, j'))" for j
    by (rule replace_counting_inert[OF inert_placeholder_plain[OF wf(2)]])
  show ?case
  proof (cases "k' = k")
    case True
    from Cons.prems(3) p True have here: "f i = occurrence k body"
      and later: "\<forall>n < length (occurrences k ps). f (Suc i + n) = occurrences k ps ! n"
      by force+
    have "replace_counting (lit (placeholder k)) f i (view shown (p # ps)) =
        replace_counting (lit (placeholder k)) f i (placeholder k @ (tx @ view shown ps))"
      using True Cons.prems(2) by (simp add: p)
    also have "\<dots> = (case replace_counting (lit (placeholder k)) f (Suc i) (tx @ view shown ps) of
        (r, j) \<Rightarrow> (f i @ r, j))"
      by (rule replace_counting_hit[where occ="placeholder k" and m="lit (placeholder k)",
            OF placeholder_not_Nil lit_prefix])
    finally show ?thesis
      using Cons.IH[OF wf(4) Cons.prems(2) later] True here
      by (simp add: past_text p del: fun_upd_apply) (simp add: fun_upd_same)
  next
    case False
    from Cons.prems(3) p False
    have later: "\<forall>n < length (occurrences k ps). f (i + n) = occurrences k ps ! n"
      by simp
    have "inert (lit (placeholder k)) (if shown k' then occurrence k' body else placeholder k')
        (tx @ view shown ps)"
      using inert_placeholder_occurrence[OF wf(1)]
        inert_placeholder_placeholder[OF False next_ok_text_view[OF wf(2,3)]]
      by simp
    from replace_counting_inert[OF this, of f i]
    show ?thesis
      using Cons.IH[OF wf(4) Cons.prems(2) later] False
      by (simp add: past_text p del: fun_upd_apply) (simp add: fun_upd_other)
  qed
qed

subsection \<open>Masking and populating a paragraph\<close>

lemma shown_none: "(\<lambda>_. True)(Math := False, Graphie := False, Widget := False) = (\<lambda>_. False)"
proof
  fix k :: kind
  show "((\<lambda>_. True)(Math := False, Graphie := False, Widget := False)) k = False"
    by (cases k) simp_all
qed

lemma shown_all: "(\<lambda>_. False)(Math := True, Graphie := True, Widget := True) = (\<lambda>_. True)"
proof
  fix k :: kind
  show "((\<lambda>_. False)(Math := True, Graphie := True, Widget := True)) k = True"
    by (cases k) simp_all
qed

lemma mask_specials_passes:
  "mask_specials s =
     replace_all (regex_of Widget) (\<lambda>_. placeholder Widget)
       (replace_all (regex_of Graphie) (\<lambda>_. placeholder Graphie)
         (replace_all (regex_of Math) (\<lambda>_. placeholder Math) s))"
  by (simp add: mask_specials_def)

lemma mask_pass_paragraph:
  assumes "list_all plain lead" and "list_all wf_piece ps"
  shows "replace_all (regex_of k) (\<lambda>_. placeholder k) (lead @ view shown ps) =
         lead @ view (shown(k := False)) ps"
proof -
  have "replace_all (regex_of k) (\<lambda>_. placeholder k) (lead @ (view shown ps @ [])) =
      lead @ replace_all (regex_of k) (\<lambda>_. placeholder k) (view shown ps @ [])"
    by (rule replace_all_inert[OF inert_regex_plain[OF assms(1)]])
  also have "replace_all (regex_of k) (\<lambda>_. placeholder k) (view shown ps @ []) =
      view (shown(k := False)) ps @ replace_all (regex_of k) (\<lambda>_. placeholder k) []"
    by (rule mask_view[OF assms(2)])
  finally show ?thesis by simp
qed

lemma mask_paragraph: "wf_paragraph p \<Longrightarrow> mask_specials (render_paragraph p) = skeleton p"
  unfolding mask_specials_passes render_paragraph_def skeleton_def wf_paragraph_def
  by (simp only: mask_pass_paragraph shown_none)

lemma fill_pass_paragraph:
  assumes "list_all plain lead" and "list_all wf_piece ps" and "\<not> shown k"
    and "\<forall>n < length (occurrences k ps). f (i + n) = occurrences k ps ! n"
  shows "replace_counting (lit (placeholder k)) f i (lead @ view shown ps) =
         (lead @ view (shown(k := True)) ps, i + length (occurrences k ps))"
  using replace_counting_inert[where m="lit (placeholder k)" and pre=lead
      and rest="view shown ps" and f=f and i=i, OF inert_placeholder_plain[OF assms(1)]]
    fill_view[where ps=ps and shown=shown and k=k and f=f and i=i, OF assms(2,3,4)]
  by simp

lemma populate_paragraph:
  assumes wf: "wf_paragraph p"
    and m: "\<forall>n < length (occurrences Math (snd p)).
              pick ms (mathMapping t) (mathIndex cnt + n) = occurrences Math (snd p) ! n"
    and g: "\<forall>n < length (occurrences Graphie (snd p)).
              pick gs (graphieMapping t) (graphieIndex cnt + n) = occurrences Graphie (snd p) ! n"
    and w: "\<forall>n < length (occurrences Widget (snd p)).
              pick ws (widgetMapping t) (widgetIndex cnt + n) = occurrences Widget (snd p) ! n"
  shows "populate_line t ms gs ws cnt (skeleton p) =
         (render_paragraph p,
          \<lparr>mathIndex = mathIndex cnt + length (occurrences Math (snd p)),
           graphieIndex = graphieIndex cnt + length (occurrences Graphie (snd p)),
           widgetIndex = widgetIndex cnt + length (occurrences Widget (snd p))\<rparr>)"
proof -
  from wf have lead: "list_all plain (fst p)" and ps: "list_all wf_piece (snd p)"
    by (simp_all add: wf_paragraph_def)
  have n1: "\<not> (\<lambda>_. False) Math" by simp
  have n2: "\<not> ((\<lambda>_. False)(Math := True)) Graphie" by simp
  have n3: "\<not> ((\<lambda>_. False)(Math := True, Graphie := True)) Widget" by simp
  have 1: "replace_counting (lit MATH_PH) (pick ms (mathMapping t)) (mathIndex cnt)
             (fst p @ view (\<lambda>_. False) (snd p)) =
           (fst p @ view ((\<lambda>_. False)(Math := True)) (snd p),
            mathIndex cnt + length (occurrences Math (snd p)))"
    using fill_pass_paragraph[where shown="\<lambda>_. False" and k=Math, OF lead ps n1 m] by simp
  have 2: "replace_counting (lit GRAPHIE_PH) (pick gs (graphieMapping t)) (graphieIndex cnt)
             (fst p @ view ((\<lambda>_. False)(Math := True)) (snd p)) =
           (fst p @ view ((\<lambda>_. False)(Math := True, Graphie := True)) (snd p),
            graphieIndex cnt + length (occurrences Graphie (snd p)))"
    using fill_pass_paragraph[where shown="(\<lambda>_. False)(Math := True)" and k=Graphie,
        OF lead ps n2 g] by simp
  have 3: "replace_counting (lit WIDGET_PH) (pick ws (widgetMapping t)) (widgetIndex cnt)
             (fst p @ view ((\<lambda>_. False)(Math := True, Graphie := True)) (snd p)) =
           (fst p @ view (\<lambda>_. True) (snd p),
            widgetIndex cnt + length (occurrences Widget (snd p)))"
    using fill_pass_paragraph[where shown="(\<lambda>_. False)(Math := True, Graphie := True)"
        and k=Widget, OF lead ps n3 w]
    by (simp add: shown_all del: fun_upd_apply)
  show ?thesis
    unfolding populate_line_def skeleton_def render_paragraph_def
    by (simp only: 1 2 3 prod.case)
qed

subsection \<open>The occurrences of a whole string\<close>

lemma occurrences_paragraph:
  assumes "wf_paragraph p"
  shows "match_all (regex_of k) (render_paragraph p @ rest) =
         occurrences k (snd p) @ match_all (regex_of k) rest"
proof -
  from assms have lead: "list_all plain (fst p)" and ps: "list_all wf_piece (snd p)"
    by (simp_all add: wf_paragraph_def)
  have "match_all (regex_of k) (fst p @ (view (\<lambda>_. True) (snd p) @ rest)) =
      match_all (regex_of k) (view (\<lambda>_. True) (snd p) @ rest)"
    by (rule match_all_inert[OF inert_regex_plain[OF lead]])
  also have "\<dots> = occurrences k (snd p) @ match_all (regex_of k) rest"
    by (rule occurrences_view[OF ps])
  finally show ?thesis by (simp add: render_paragraph_def)
qed

lemma occurrences_join:
  "\<forall>p \<in> set paras. wf_paragraph p \<Longrightarrow>
   match_all (regex_of k) (join_lines (map render_paragraph paras)) = all_occurrences k paras"
proof (induction paras rule: induct_list012)
  case 1
  then show ?case by (simp add: all_occurrences_def)
next
  case (2 p)
  then show ?case
    using occurrences_paragraph[of p k "[]"] by (simp add: all_occurrences_def)
next
  case (3 p q paras)
  have "match_all (regex_of k) (join_lines (map render_paragraph (p # q # paras))) =
      match_all (regex_of k)
        (render_paragraph p @ ([LF, LF] @ join_lines (map render_paragraph (q # paras))))"
    by (simp add: LINE_BREAK_def)
  also have "\<dots> = occurrences k (snd p) @
      match_all (regex_of k) ([LF, LF] @ join_lines (map render_paragraph (q # paras)))"
    using 3(3) by (intro occurrences_paragraph) simp
  also have "match_all (regex_of k) ([LF, LF] @ join_lines (map render_paragraph (q # paras))) =
      match_all (regex_of k) (join_lines (map render_paragraph (q # paras)))"
    by (rule match_all_inert[OF inert_regex_LF])
  also have "\<dots> = all_occurrences k (q # paras)"
    using 3(2,3) by simp
  finally show ?case by (simp add: all_occurrences_def)
qed

lemma all_occurrences_nth:
  assumes "index < length paras" and "n < length (occurrences k (snd (paras ! index)))"
  shows "length (all_occurrences k (take index paras)) + n < length (all_occurrences k paras) \<and>
         all_occurrences k paras ! (length (all_occurrences k (take index paras)) + n) =
           occurrences k (snd (paras ! index)) ! n"
proof -
  have "paras = take index paras @ paras ! index # drop (Suc index) paras"
    using assms(1) by (simp add: id_take_nth_drop)
  then have "all_occurrences k paras =
      all_occurrences k (take index paras) @
      (occurrences k (snd (paras ! index)) @ all_occurrences k (drop (Suc index) paras))"
    unfolding all_occurrences_def by (metis concat.simps(2) concat_append list.simps(9) map_append)
  with assms(2) show ?thesis by (simp add: nth_append)
qed

lemma all_occurrences_take_Suc:
  "index < length paras \<Longrightarrow>
   length (all_occurrences k (take (Suc index) paras)) =
   length (all_occurrences k (take index paras)) + length (occurrences k (snd (paras ! index)))"
  by (simp add: all_occurrences_def take_Suc_conv_app_nth)

subsection \<open>The round trip\<close>

lemma populate_all_paragraphs:
  assumes lines: "lines t = map skeleton paras"
    and wf: "\<forall>p \<in> set paras. wf_paragraph p"
    and m: "\<forall>j < length (all_occurrences Math paras).
              pick ms (mathMapping t) j = all_occurrences Math paras ! j"
    and g: "\<forall>j < length (all_occurrences Graphie paras).
              pick gs (graphieMapping t) j = all_occurrences Graphie paras ! j"
    and w: "\<forall>j < length (all_occurrences Widget paras).
              pick ws (widgetMapping t) j = all_occurrences Widget paras ! j"
    and len: "index + length els = length paras"
  shows "populate_lines t ms gs ws index
           \<lparr>mathIndex = length (all_occurrences Math (take index paras)),
            graphieIndex = length (all_occurrences Graphie (take index paras)),
            widgetIndex = length (all_occurrences Widget (take index paras))\<rparr> els =
         Inr (map render_paragraph (drop index paras))"
  using len
proof (induction els arbitrary: index)
  case Nil
  then show ?case by simp
next
  case (Cons el rest)
  then have index: "index < length paras" and succ: "Suc index + length rest = length paras"
    by simp_all
  let ?p = "paras ! index"
  let ?cnt = "\<lparr>mathIndex = length (all_occurrences Math (take index paras)),
            graphieIndex = length (all_occurrences Graphie (take index paras)),
            widgetIndex = length (all_occurrences Widget (take index paras))\<rparr>"
  have wfp: "wf_paragraph ?p" using wf index by simp
  have line: "lines t ! index = skeleton ?p" using lines index by simp
  have inside: "index < length (lines t)" using lines index by simp
  have pm: "\<forall>n < length (occurrences Math (snd ?p)).
      pick ms (mathMapping t) (mathIndex ?cnt + n) = occurrences Math (snd ?p) ! n"
    using all_occurrences_nth[OF index, of _ Math] m by simp
  have pg: "\<forall>n < length (occurrences Graphie (snd ?p)).
      pick gs (graphieMapping t) (graphieIndex ?cnt + n) = occurrences Graphie (snd ?p) ! n"
    using all_occurrences_nth[OF index, of _ Graphie] g by simp
  have pw: "\<forall>n < length (occurrences Widget (snd ?p)).
      pick ws (widgetMapping t) (widgetIndex ?cnt + n) = occurrences Widget (snd ?p) ! n"
    using all_occurrences_nth[OF index, of _ Widget] w by simp
  have step: "populate_line t ms gs ws ?cnt (lines t ! index) =
      (render_paragraph ?p,
       \<lparr>mathIndex = length (all_occurrences Math (take (Suc index) paras)),
        graphieIndex = length (all_occurrences Graphie (take (Suc index) paras)),
        widgetIndex = length (all_occurrences Widget (take (Suc index) paras))\<rparr>)"
    unfolding line populate_paragraph[OF wfp pm pg pw]
    by (simp add: all_occurrences_take_Suc[OF index])
  have run: "populate_lines t ms gs ws index ?cnt (el # rest) =
      Inr (render_paragraph ?p # map render_paragraph (drop (Suc index) paras))"
    using inside Cons.IH[OF succ] by (simp add: step)
  have d: "drop index paras = ?p # drop (Suc index) paras"
    using index by (simp add: Cons_nth_drop_Suc)
  show ?case unfolding d list.map by (rule run)
qed

lemma translateMath_indices:
  "map2 (\<lambda>math index. translateMath math (JNumber index)) maths [0 ..< length maths] = maths"
proof -
  have "(\<lambda>(math, index). translateMath math (JNumber index)) = fst"
    by (auto simp: translateMath_def)
  then show ?thesis by simp
qed

lemma createTemplate_Inr:
  "createTemplate e tr lang = Inr tpl \<Longrightarrow>
   lines tpl = map mask_specials (split_lines tr) \<and>
   getMapping e tr lang Math = Inr (mathMapping tpl) \<and>
   getMapping e tr lang Graphie = Inr (graphieMapping tpl) \<and>
   getMapping e tr lang Widget = Inr (widgetMapping tpl)"
  by (auto simp: createTemplate_def Let_def split: sum.splits)

lemma pick_mapped:
  assumes "getMapping e tr lang k = Inr mapping" and "lang \<noteq> PT"
    and "j < length (match_all (regex_of k) tr)"
  shows "pick (match_all (regex_of k) e) mapping j = match_all (regex_of k) tr ! j"
  using getMapping_loop_Inr[OF assms(1)[unfolded getMapping_def]] assms(2,3)
  by (simp add: pick_def rewrite_output_def)

text \<open>
  A class of translated strings for which the round trip works: the paragraphs are each
  plain text with simple Math, Graphie and Widget substrings in it (\<open>wf_paragraph\<close>),
  the English string has as many paragraphs, \<^verbatim>\<open>createTemplate\<close> succeeds on the pair, and
  the language is not \<^verbatim>\<open>pt\<close>.
\<close>

lemma populate_simple_paragraphs:
  assumes "split_lines tr = map render_paragraph paras"
    and "\<forall>p \<in> set paras. wf_paragraph p"
    and "length (split_lines e) = length paras"
    and "createTemplate e tr lang = Inr tpl"
    and "lang \<noteq> PT"
  shows "populateTemplate tpl e lang = Inr tr"
proof -
  have tr: "tr = join_lines (map render_paragraph paras)"
    using join_split_lines[of tr] assms(1) by simp
  have occ: "match_all (regex_of k) tr = all_occurrences k paras" for k
    unfolding tr by (rule occurrences_join[OF assms(2)])
  from createTemplate_Inr[OF assms(4)]
  have lines: "lines tpl = map mask_specials (split_lines tr)"
    and mm: "getMapping e tr lang Math = Inr (mathMapping tpl)"
    and gm: "getMapping e tr lang Graphie = Inr (graphieMapping tpl)"
    and wm: "getMapping e tr lang Widget = Inr (widgetMapping tpl)"
    by simp_all
  have skel: "lines tpl = map skeleton paras"
    unfolding lines assms(1) using assms(2) by (simp add: mask_paragraph)
  have m: "\<forall>j < length (all_occurrences Math paras).
      pick (match_all MATH_REGEX e) (mathMapping tpl) j = all_occurrences Math paras ! j"
    using pick_mapped[OF mm assms(5)] by (simp add: occ[symmetric])
  have g: "\<forall>j < length (all_occurrences Graphie paras).
      pick (match_all GRAPHIE_REGEX e) (graphieMapping tpl) j = all_occurrences Graphie paras ! j"
    using pick_mapped[OF gm assms(5)] by (simp add: occ[symmetric])
  have w: "\<forall>j < length (all_occurrences Widget paras).
      pick (match_all WIDGET_REGEX e) (widgetMapping tpl) j = all_occurrences Widget paras ! j"
    using pick_mapped[OF wm assms(5)] by (simp add: occ[symmetric])
  have len: "0 + length (split_lines e) = length paras" using assms(3) by simp
  have "populated_lines tpl e = Inr (map render_paragraph paras)"
    unfolding populated_lines_def translateMath_indices
    using populate_all_paragraphs[OF skel assms(2) m g w len]
    by (simp add: all_occurrences_def)
  then show ?thesis
    by (simp add: populateTemplate_populated_lines tr)
qed

lemma populate_simple_paragraphs_example:
  "split_lines mixed_translated = map render_paragraph mixed_paragraphs \<and>
   list_all wf_paragraph mixed_paragraphs \<and>
   length (split_lines mixed_english) = length mixed_paragraphs \<and>
   createTemplate mixed_english mixed_translated ES = Inr mixed_template \<and>
   ES \<noteq> PT \<and>
   populateTemplate mixed_template mixed_english ES = Inr mixed_translated"
proof -
  have h1: "split_lines mixed_translated = map render_paragraph mixed_paragraphs"
    by (simp add: mixed_translated_def mixed_paragraphs_def render_paragraph_def occurrence_def
        str_def LINE_BREAK_def)
  have wf: "list_all wf_paragraph mixed_paragraphs"
    by (simp add: mixed_paragraphs_def wf_paragraph_def plain_def no_initial_def str_def)
  then have h2: "\<forall>p \<in> set mixed_paragraphs. wf_paragraph p"
    by (simp add: list_all_iff)
  have h3: "length (split_lines mixed_english) = length mixed_paragraphs"
    by (simp add: mixed_english_def mixed_paragraphs_def str_def LINE_BREAK_def)
  have h4: "createTemplate mixed_english mixed_translated ES = Inr mixed_template"
    by (simp add: eval_defs ES_def mixed_english_def mixed_translated_def mixed_template_def)
  have h5: "ES \<noteq> PT" by (simp add: ES_def PT_def)
  from populate_simple_paragraphs[OF h1 h2 h3 h4 h5] h1 wf h3 h4 h5 show ?thesis by simp
qed

subsection \<open>The round trip in general\<close>

text \<open>
  With as many English paragraphs as translated ones, and a language whose rewrite
  leaves the special substrings of the translated string as they are, the result of
  populating the template of a pair with its English string does not depend on the
  English string: the mapping leads every placeholder to an occurrence with the text of
  the translated one. It is what the translated string gives with its own template.
\<close>

lemma transform_neutral_rewrite:
  "transform_neutral lang tr \<Longrightarrow> occ \<in> set (match_all (regex_of k) tr) \<Longrightarrow>
   rewrite_output lang occ = occ"
  by (cases k) (auto simp: transform_neutral_def list_all_iff)

lemma transform_neutral_other: "lang \<noteq> PT \<Longrightarrow> transform_neutral lang tr"
  by (simp add: transform_neutral_def rewrite_output_def translateMath_def list_all_iff)





lemma createTemplate_own:
  assumes "transform_neutral lang tr"
  shows "\<exists>own. createTemplate tr tr lang = Inr own"
proof -
  have "\<not> unmatched tr tr lang k" for k
    using transform_neutral_rewrite[OF assms] by (auto simp: unmatched_def)
  then show ?thesis by (simp add: createTemplate_cases)
qed



text \<open>Strings that are restored from their own template: those of the class above, and
  for instance \<^verbatim>\<open>Hola! $x_1$\<close>, which is not in it. A string that is not:
  in \<^verbatim>\<open>![](u)MATH$x$\<close> the end of the first placeholder, the text and the beginning of the
  second placeholder spell \<^verbatim>\<open>__MATH__\<close>.\<close>

lemma simple_paragraphs_restored:
  assumes "split_lines tr = map render_paragraph paras"
    and "\<forall>p \<in> set paras. wf_paragraph p"
    and "lang \<noteq> PT"
  shows "\<exists>own. createTemplate tr tr lang = Inr own \<and> populateTemplate own tr lang = Inr tr"
proof -
  from createTemplate_own[OF transform_neutral_other[OF assms(3)]]
  obtain own where own: "createTemplate tr tr lang = Inr own" by blast
  have "length (split_lines tr) = length paras" using assms(1) by simp
  from populate_simple_paragraphs[OF assms(1,2) this own assms(3)] own
  show ?thesis by blast
qed

lemma hola_restored:
  "transform_neutral ES hola \<and>
   createTemplate hola hola ES =
     Inr \<lparr>lines = [str ''Hola! __MATH__''], mathMapping = [0], graphieMapping = [],
          widgetMapping = []\<rparr> \<and>
   populateTemplate
     \<lparr>lines = [str ''Hola! __MATH__''], mathMapping = [0], graphieMapping = [],
      widgetMapping = []\<rparr> hola ES = Inr hola"
  by (simp add: transform_neutral_def eval_defs hola_def ES_def)

lemma spelled_placeholder_not_restored:
  "transform_neutral ES spelled_placeholder \<and>
   createTemplate spelled_placeholder spelled_placeholder ES =
     Inr \<lparr>lines = [str ''__GRAPHIE__MATH__MATH__''], mathMapping = [0], graphieMapping = [0],
          widgetMapping = []\<rparr> \<and>
   populateTemplate
     \<lparr>lines = [str ''__GRAPHIE__MATH__MATH__''], mathMapping = [0], graphieMapping = [0],
      widgetMapping = []\<rparr> spelled_placeholder ES = Inr (str ''__GRAPHIE$x$MATH__'')"
  by (simp add: transform_neutral_def eval_defs spelled_placeholder_def ES_def)


end
